theory Spec2Isabelle
  imports Complex_Main "HOL-Library.Word"
begin

unbundle bit_operations_syntax

section \<open>Data model of the kNet UDP message connection\<close>

text \<open>
  Machine integers are words of the width the C++ type has. \<open>packet_id_t\<close> and
  \<open>unsigned long\<close> counters are 32-bit words, \<open>tick_t\<close> is a 64-bit word.
  The C++ type \<open>float\<close> is modelled by \<open>real\<close>: rounding is not modelled.
  \<open>NetworkMessage*\<close> is an address into the store \<open>messages\<close> of the connection.
\<close>

type_synonym u8 = "8 word"
type_synonym u16 = "16 word"
type_synonym u32 = "32 word"
type_synonym tick_t = "64 word"
type_synonym packet_id_t = "32 word"
type_synonym msg_ptr = nat
type_synonym transfer_ptr = nat

datatype ConnectionState =
  ConnectionPending | ConnectionOK | ConnectionDisconnecting | ConnectionPeerClosed | ConnectionClosed

record NetworkMessage =
  msgId :: u32
  reliable :: bool
  inOrder :: bool
  priority :: u32
  contentID :: u32
  messageNumber :: u32
  reliableMessageNumber :: u32
  sendCount :: nat
  obsolete :: bool
  transfer :: "transfer_ptr option"
  fragmentIndex :: u32
  data :: "u8 list"
  dataSize :: nat

record PacketAckTrack =
  packetID :: packet_id_t
  sentTick :: tick_t
  timeoutTick :: tick_t
  trackSendCount :: nat
  trackDatagramSendRate :: real
  trackMessages :: "msg_ptr list"

record PingTrack =
  pingID :: u8
  pingSentTick :: tick_t
  pingReplyTick :: tick_t
  replyReceived :: bool

record TrafficTrack =
  bytesIn :: nat
  packetsIn :: nat
  messagesIn :: nat
  bytesOut :: nat
  packetsOut :: nat
  messagesOut :: nat
  tick :: tick_t

text \<open>
  The environment of one call: the clock reading, the socket, and the collaborators whose
  code is not among the sources (the VLE codec of DataSerializer and DataDeserializer, the
  application's content-id callback, the well-known message ids). \<open>Clock::Tick()\<close> is
  read as one value \<open>now\<close> for the whole call. A reader function gets the bytes that are
  left and returns the value read and the number of bytes it consumed.
\<close>

record environment =
  now :: tick_t
  TicksPerSec :: nat
  socketExists :: bool
  socketIsWriteOpen :: bool
  socketBeginSend :: bool
  socketEndSend :: bool
  MaxSendSize :: nat
  ReadU8 :: "u8 list \<Rightarrow> u8 \<times> nat"
  ReadVLE8_16 :: "u8 list \<Rightarrow> u32 \<times> nat"
  ReadVLE16_32 :: "u8 list \<Rightarrow> u32 \<times> nat"
  ReadVLE8_16_32 :: "u8 list \<Rightarrow> u32 \<times> nat"
  AddVLE8_16 :: "u32 \<Rightarrow> u8 list"
  AddVLE16_32 :: "u32 \<Rightarrow> u8 list"
  AddVLE8_16_32 :: "u32 \<Rightarrow> u8 list"
  GetEncodedBitLength8_16_32 :: "u32 \<Rightarrow> nat"
  hasInboundMessageHandler :: bool
  ComputeContentID :: "u32 \<Rightarrow> u8 list \<Rightarrow> u32"
  MsgIdPingRequest :: u32
  MsgIdPingReply :: u32
  MsgIdFlowControlRequest :: u32
  MsgIdPacketAck :: u32
  MsgIdDisconnect :: u32
  MsgIdDisconnectAck :: u32
  cMaxPriority :: u32

record FragmentedTransfer =
  transferId :: int
  totalNumFragments :: nat
  fragments :: "msg_ptr list"

record ReassemblyBuffer =
  rTransferID :: u8
  rTotalNumFragments :: u32
  rFragments :: "(u32 \<times> u8 list) list"

text \<open>
  The fields of MessageConnection and of UDPMessageConnection that the modelled functions
  read or write. \<open>messages\<close> is the store of the message objects the pool handed out,
  \<open>poolNext\<close> the next address the pool hands out and \<open>poolFreed\<close> the addresses given
  back with FreeMessage. \<open>ping\<close> and \<open>traffic\<close> are the lists of ConnectionStatistics.
  \<open>inboundPacketAckTrack\<close> is the std::map of the pending acks, kept as an association
  list in ascending key order; \<open>receivedReliableMessages\<close> is the std::set.
\<close>

record connection =
  connectionState :: ConnectionState
  bOutboundSendsPaused :: bool
  eventMsgsOutAvailable :: bool
  messages :: "msg_ptr \<Rightarrow> NetworkMessage"
  poolNext :: msg_ptr
  poolFreed :: "msg_ptr list"
  outboundAcceptQueue :: "msg_ptr list"
  inboundMessageQueue :: "msg_ptr list"
  outboundQueue :: "msg_ptr list"
  rtt :: real
  lastHeardTime :: tick_t
  outboundMessageNumberCounter :: u32
  outboundReliableMessageNumberCounter :: u32
  outboundContentIDMessages :: "(u32 \<times> u32) \<rightharpoonup> msg_ptr"
  inboundContentIDStamps :: "(u32 \<times> u32) \<rightharpoonup> (packet_id_t \<times> tick_t)"
  ping :: "PingTrack list"
  traffic :: "TrafficTrack list"
  transfers :: "transfer_ptr \<Rightarrow> FragmentedTransfer"
  liveTransfers :: "transfer_ptr list"
  nextTransfer :: transfer_ptr
  fragmentedReceives :: "ReassemblyBuffer list"
  assembledData :: "u8 list"
  retransmissionTimeout :: real
  smoothedRTT :: real
  rttVariation :: real
  rttCleared :: bool
  lastReceivedInOrderPacketID :: packet_id_t
  lastSentInOrderPacketID :: packet_id_t
  datagramPacketIDCounter :: packet_id_t
  datagramSendRate :: real
  lowestDatagramSendRateOnPacketLoss :: real
  numAcksLastFrame :: nat
  numLossesLastFrame :: nat
  lastFrameTime :: tick_t
  lastDatagramSendTime :: tick_t
  receivedPacketIDs :: "packet_id_t list"
  outboundPacketAckTrack :: "PacketAckTrack list"
  inboundPacketAckTrack :: "(packet_id_t \<times> PacketAckTrack) list"
  receivedReliableMessages :: "u32 set"
  datagramSerializedMessages :: "msg_ptr list"
  skippedMessages :: "msg_ptr list"

section \<open>Clock and packet ids\<close>

text \<open>
  Modelled from the spec: Clock.h is not among the sources. The clock "exposes a monotonic
  integer tick, ticks-per-second, and helpers for wrap-safe comparison": the span between
  two ticks is their difference on \<open>tick_t\<close>, and a span is converted to milliseconds or
  seconds with \<open>TicksPerSec\<close>.
\<close>

definition TicksInBetween :: "tick_t \<Rightarrow> tick_t \<Rightarrow> tick_t" where
  "TicksInBetween newTick oldTick = newTick - oldTick"

definition TicksToMillisecondsD :: "environment \<Rightarrow> tick_t \<Rightarrow> real" where
  "TicksToMillisecondsD env ticks = real (unat ticks) * 1000 / real (TicksPerSec env)"

definition TimespanToMillisecondsF :: "environment \<Rightarrow> tick_t \<Rightarrow> tick_t \<Rightarrow> real" where
  "TimespanToMillisecondsF env oldTick newTick = TicksToMillisecondsD env (TicksInBetween newTick oldTick)"

definition TimespanToSecondsD :: "environment \<Rightarrow> tick_t \<Rightarrow> tick_t \<Rightarrow> real" where
  "TimespanToSecondsD env oldTick newTick =
     real (unat (TicksInBetween newTick oldTick)) / real (TicksPerSec env)"

definition TicksPerMillisecond :: "environment \<Rightarrow> real" where
  "TicksPerMillisecond env = real (TicksPerSec env) / 1000"

text \<open>
  Modelled from the spec: the packet id arithmetic is declared in a header that is not among
  the sources. Packet ids are "22-bit datagram sequence numbers with wrap-aware ordering".
\<close>

definition AddPacketID :: "packet_id_t \<Rightarrow> nat \<Rightarrow> packet_id_t" where
  "AddPacketID pid n = (pid + of_nat n) AND mask 22"

definition PacketIDIsNewerThan :: "packet_id_t \<Rightarrow> packet_id_t \<Rightarrow> bool" where
  "PacketIDIsNewerThan newID oldID = (newID \<noteq> oldID \<and> (newID - oldID) AND mask 22 < 2 ^ 21)"

section \<open>Construction and initialisation\<close>

definition initialDatagramRatePerSecond :: int where
  "initialDatagramRatePerSecond = 30"

definition maxAckDelay :: real where
  "maxAckDelay = 33"

text \<open>
  The constructors of MessageConnection and UDPMessageConnection: the values of their
  initialiser lists; every container starts empty.
\<close>

definition emptyMessage :: NetworkMessage where
  "emptyMessage = \<lparr> msgId = 0, reliable = False, inOrder = False, priority = 0, contentID = 0,
     messageNumber = 0, reliableMessageNumber = 0, sendCount = 0, obsolete = False,
     transfer = None, fragmentIndex = 0, data = [], dataSize = 0 \<rparr>"

definition emptyTransfer :: FragmentedTransfer where
  "emptyTransfer = \<lparr> transferId = -1, totalNumFragments = 0, fragments = [] \<rparr>"

definition UDPMessageConnection :: "environment \<Rightarrow> ConnectionState \<Rightarrow> connection" where
  "UDPMessageConnection env startingState =
     \<lparr> connectionState = startingState,
       bOutboundSendsPaused = False,
       eventMsgsOutAvailable = False,
       messages = (\<lambda>p. emptyMessage),
       poolNext = 0,
       poolFreed = [],
       outboundAcceptQueue = [],
       inboundMessageQueue = [],
       outboundQueue = [],
       rtt = 0,
       lastHeardTime = now env,
       outboundMessageNumberCounter = 0,
       outboundReliableMessageNumberCounter = 0,
       outboundContentIDMessages = Map.empty,
       inboundContentIDStamps = Map.empty,
       ping = [],
       traffic = [],
       transfers = (\<lambda>t. emptyTransfer),
       liveTransfers = [],
       nextTransfer = 0,
       fragmentedReceives = [],
       assembledData = [],
       retransmissionTimeout = 3,
       smoothedRTT = 3,
       rttVariation = 0,
       rttCleared = True,
       lastReceivedInOrderPacketID = 0,
       lastSentInOrderPacketID = 0,
       datagramPacketIDCounter = 0,
       datagramSendRate = 10,
       lowestDatagramSendRateOnPacketLoss = 0,
       numAcksLastFrame = 0,
       numLossesLastFrame = 0,
       lastFrameTime = 0,
       lastDatagramSendTime = 0,
       receivedPacketIDs = [],
       outboundPacketAckTrack = [],
       inboundPacketAckTrack = [],
       receivedReliableMessages = {},
       datagramSerializedMessages = [],
       skippedMessages = [] \<rparr>"

definition Initialize :: "environment \<Rightarrow> connection \<Rightarrow> connection" where
  "Initialize env c =
     c\<lparr> rttCleared := True,
        retransmissionTimeout := 3,
        smoothedRTT := 3,
        rttVariation := 0,
        datagramSendRate := 70,
        lastFrameTime := now env,
        lastDatagramSendTime := now env \<rparr>"

section \<open>Retransmission timeout (RFC 2988)\<close>

definition minRTOTimeoutValue :: real where
  "minRTOTimeoutValue = 1000"

definition maxRTOTimeoutValue :: real where
  "maxRTOTimeoutValue = 5000"

definition UpdateRTOCounterOnPacketAck :: "real \<Rightarrow> connection \<Rightarrow> connection" where
  "UpdateRTOCounterOnPacketAck rtt' c =
     (let alpha = 1 / 8;
          beta = 1 / 4;
          c1 = (if rttCleared c
                then c\<lparr> rttCleared := False, rttVariation := rtt' / 2, smoothedRTT := rtt' \<rparr>
                else c\<lparr> rttVariation := (1 - beta) * rttVariation c + beta * \<bar>smoothedRTT c - rtt'\<bar>,
                        smoothedRTT := (1 - alpha) * smoothedRTT c + alpha * rtt' \<rparr>);
          safetyThresholdAdd = 1;
          safetyThresholdMul = 2
      in c1\<lparr> retransmissionTimeout :=
               min maxRTOTimeoutValue
                 (max minRTOTimeoutValue
                    (safetyThresholdAdd + safetyThresholdMul * (smoothedRTT c1 + rttVariation c1))) \<rparr>)"

definition UpdateRTOCounterOnPacketLoss :: "connection \<Rightarrow> connection" where
  "UpdateRTOCounterOnPacketLoss c =
     (let v = min maxRTOTimeoutValue (max minRTOTimeoutValue (smoothedRTT c * 2))
      in c\<lparr> smoothedRTT := v, retransmissionTimeout := v, rttVariation := 0,
            numLossesLastFrame := numLossesLastFrame c + 1 \<rparr>)"

section \<open>Pacing of outbound datagrams\<close>

text \<open>
  \<open>(tick_t)(Clock::TicksPerSec() / datagramSendRate)\<close>: the quotient is truncated to a
  tick count. The conversion is undefined in C++ for a rate that is not positive, and the
  integer division in NewDatagramSent is undefined for a delay of zero ticks: both are the
  result \<open>None\<close> of the model.
\<close>

definition datagramSendTickDelay :: "environment \<Rightarrow> connection \<Rightarrow> tick_t" where
  "datagramSendTickDelay env c = of_nat (nat \<lfloor>real (TicksPerSec env) / datagramSendRate c\<rfloor>)"

definition CanSendOutNewDatagram :: "environment \<Rightarrow> connection \<Rightarrow> bool" where
  "CanSendOutNewDatagram env c =
     (TicksInBetween (now env) (lastDatagramSendTime c) \<ge> datagramSendTickDelay env c)"

definition NewDatagramSent :: "environment \<Rightarrow> connection \<Rightarrow> connection option" where
  "NewDatagramSent env c =
     (if datagramSendRate c \<le> 0 \<or> datagramSendTickDelay env c = 0 then None
      else if TicksInBetween (now env) (lastDatagramSendTime c) div datagramSendTickDelay env c < 20
      then Some (c\<lparr> lastDatagramSendTime := lastDatagramSendTime c + datagramSendTickDelay env c \<rparr>)
      else Some (c\<lparr> lastDatagramSendTime := now env \<rparr>))"

section \<open>Disconnect handshake\<close>

definition HandleDisconnectAckMessage :: "connection \<Rightarrow> connection" where
  "HandleDisconnectAckMessage c = c\<lparr> connectionState := ConnectionClosed \<rparr>"

section \<open>Ping replies\<close>

text \<open>
  The loop of HandlePingReplyMessage over \<open>cs.ping\<close>: the first entry with the received
  ping id and no reply yet gets its reply tick and its flag, and the loop returns the
  measured round trip time of that entry; \<open>None\<close> when no entry matches.
\<close>

fun pingReplyLoop :: "environment \<Rightarrow> u8 \<Rightarrow> PingTrack list \<Rightarrow> (PingTrack list \<times> real) option" where
  "pingReplyLoop env pid [] = None"
| "pingReplyLoop env pid (p # ps) =
     (if pingID p = pid \<and> replyReceived p = False
      then (let p1 = p\<lparr> pingReplyTick := now env \<rparr>;
                newRtt = TicksToMillisecondsD env (TicksInBetween (pingReplyTick p1) (pingSentTick p1))
            in Some (p1\<lparr> replyReceived := True \<rparr> # ps, newRtt))
      else (case pingReplyLoop env pid ps of
              None \<Rightarrow> None
            | Some (ps', newRtt) \<Rightarrow> Some (p # ps', newRtt)))"

definition HandlePingReplyMessage :: "environment \<Rightarrow> u8 list \<Rightarrow> connection \<Rightarrow> connection" where
  "HandlePingReplyMessage env bytes c =
     (if length bytes \<noteq> 1 then c
      else (let rttPredictBias = 0.5;
                pid = hd bytes
            in (case pingReplyLoop env pid (ping c) of
                  Some (ps', newRtt) \<Rightarrow>
                    c\<lparr> ping := ps', rtt := rttPredictBias * newRtt + (1 * rttPredictBias) * rtt c \<rparr>
                | None \<Rightarrow> c)))"

section \<open>Containers\<close>

text \<open>
  Modelled from the spec: the container classes (MaxHeap, WaitFreeQueue, OrderedHashTable)
  are not among the sources. The send priority queue is ordered "by priority descending";
  Insert and InsertWithResize put a message behind the queued messages of at least its
  priority. The accept queue is "bounded at 256 K entries" and the inbound message queue
  has "capacity 512 K"; an insertion into a full queue fails.
\<close>

fun queueInsert :: "(msg_ptr \<Rightarrow> NetworkMessage) \<Rightarrow> msg_ptr \<Rightarrow> msg_ptr list \<Rightarrow> msg_ptr list" where
  "queueInsert ms p [] = [p]"
| "queueInsert ms p (q # qs) =
     (if priority (ms q) < priority (ms p) then p # q # qs else q # queueInsert ms p qs)"

definition outboundAcceptQueueCapacity :: nat where
  "outboundAcceptQueueCapacity = 256 * 1024"

definition inboundMessageQueueCapacity :: nat where
  "inboundMessageQueueCapacity = 512 * 1024"

definition CapacityLeft :: "nat \<Rightarrow> msg_ptr list \<Rightarrow> nat" where
  "CapacityLeft capacity q = capacity - length q"

text \<open>The std::map of the pending inbound acks: \<open>operator[]\<close>, \<open>erase\<close>, \<open>find\<close>, \<open>begin\<close>.\<close>

definition defaultTrack :: PacketAckTrack where
  "defaultTrack = \<lparr> packetID = 0, sentTick = 0, timeoutTick = 0, trackSendCount = 0,
     trackDatagramSendRate = 0, trackMessages = [] \<rparr>"

fun mapIndex :: "packet_id_t \<Rightarrow> (PacketAckTrack \<Rightarrow> PacketAckTrack) \<Rightarrow>
    (packet_id_t \<times> PacketAckTrack) list \<Rightarrow> (packet_id_t \<times> PacketAckTrack) list" where
  "mapIndex k f [] = [(k, f defaultTrack)]"
| "mapIndex k f ((k', v) # xs) =
     (if k = k' then (k', f v) # xs
      else if k < k' then (k, f defaultTrack) # (k', v) # xs
      else (k', v) # mapIndex k f xs)"

definition mapErase :: "packet_id_t \<Rightarrow> (packet_id_t \<times> PacketAckTrack) list \<Rightarrow>
    (packet_id_t \<times> PacketAckTrack) list" where
  "mapErase k xs = filter (\<lambda>e. fst e \<noteq> k) xs"

definition mapFind :: "packet_id_t \<Rightarrow> (packet_id_t \<times> PacketAckTrack) list \<Rightarrow> bool" where
  "mapFind k xs = (k \<in> fst ` set xs)"

section \<open>Message pool and queueing\<close>

text \<open>
  The pool hands out a fresh address with every \<open>New\<close>; an allocation failure is not
  modelled. \<open>Free\<close> records the address as given back.
\<close>

definition AllocateNewMessage :: "connection \<Rightarrow> msg_ptr \<times> connection" where
  "AllocateNewMessage c = (poolNext c, c\<lparr> poolNext := poolNext c + 1 \<rparr>)"

definition FreeMessage :: "msg_ptr \<Rightarrow> connection \<Rightarrow> connection" where
  "FreeMessage p c = c\<lparr> poolFreed := p # poolFreed c \<rparr>"

definition updMsg :: "msg_ptr \<Rightarrow> (NetworkMessage \<Rightarrow> NetworkMessage) \<Rightarrow> connection \<Rightarrow> connection" where
  "updMsg p f c = c\<lparr> messages := (messages c)(p := f (messages c p)) \<rparr>"

definition StartNewMessage :: "u32 \<Rightarrow> nat \<Rightarrow> connection \<Rightarrow> msg_ptr \<times> connection" where
  "StartNewMessage ident numBytes c =
     (let (p, c1) = AllocateNewMessage c
      in (p, updMsg p (\<lambda>m. m\<lparr> msgId := ident, reliable := False, contentID := 0, obsolete := False,
                               priority := 0, transfer := None,
                               data := replicate numBytes 0, dataSize := numBytes \<rparr>) c1))"

definition IsWriteOpen :: "environment \<Rightarrow> connection \<Rightarrow> bool" where
  "IsWriteOpen env c =
     (socketExists env \<and> socketIsWriteOpen env \<and> connectionState c \<noteq> ConnectionDisconnecting
        \<and> connectionState c \<noteq> ConnectionClosed)"

text \<open>
  Modelled from the spec: FragmentedTransferManager is not among the sources. The sender
  side "allocates a scarce 8-bit transfer id per in-flight oversize message"; the id is
  "-1 until allocated, at most 256 concurrent"; "each fragment removes itself on ack;
  transfer is released when empty".
\<close>

definition AllocateNewFragmentedTransfer :: "connection \<Rightarrow> transfer_ptr \<times> connection" where
  "AllocateNewFragmentedTransfer c =
     (nextTransfer c,
      c\<lparr> transfers := (transfers c)(nextTransfer c := emptyTransfer),
         liveTransfers := liveTransfers c @ [nextTransfer c],
         nextTransfer := nextTransfer c + 1 \<rparr>)"

definition usedTransferIds :: "connection \<Rightarrow> int list" where
  "usedTransferIds c = map (\<lambda>t. transferId (transfers c t)) (liveTransfers c)"

definition AllocateFragmentedTransferID :: "transfer_ptr \<Rightarrow> connection \<Rightarrow> bool \<times> connection" where
  "AllocateFragmentedTransferID t c =
     (case filter (\<lambda>i. i \<notin> set (usedTransferIds c)) (map int [0..<256]) of
        [] \<Rightarrow> (False, c)
      | i # _ \<Rightarrow> (True, c\<lparr> transfers := (transfers c)(t := (transfers c t)\<lparr> transferId := i \<rparr>) \<rparr>))"

definition AddMessage :: "transfer_ptr \<Rightarrow> msg_ptr \<Rightarrow> connection \<Rightarrow> connection" where
  "AddMessage t p c =
     c\<lparr> transfers := (transfers c)(t := (transfers c t)\<lparr> fragments := fragments (transfers c t) @ [p] \<rparr>) \<rparr>"

definition RemoveMessage :: "transfer_ptr \<Rightarrow> msg_ptr \<Rightarrow> connection \<Rightarrow> connection" where
  "RemoveMessage t p c =
     (let rest = removeAll p (fragments (transfers c t));
          c1 = c\<lparr> transfers := (transfers c)(t := (transfers c t)\<lparr> fragments := rest \<rparr>) \<rparr>
      in if rest = [] then c1\<lparr> liveTransfers := removeAll t (liveTransfers c1) \<rparr> else c1)"

text \<open>
  The loop of SplitAndQueueMessage: \<open>src\<close> is the message that is split, \<open>t\<close> its
  transfer, \<open>byteOffset\<close> and \<open>idx\<close> the loop variables. A fragment that does not fit
  into the accept queue is neither queued nor freed.
\<close>

definition splitFragment :: "bool \<Rightarrow> NetworkMessage \<Rightarrow> transfer_ptr \<Rightarrow> nat \<Rightarrow> nat \<Rightarrow> nat \<Rightarrow>
    connection \<Rightarrow> connection" where
  "splitFragment internalQueue src t byteOffset idx thisFragmentSize c =
     (let (p, c1) = StartNewMessage (msgId src) thisFragmentSize c;
          c2 = updMsg p (\<lambda>m. m\<lparr> contentID := contentID src, inOrder := inOrder src,
                  reliable := True, messageNumber := outboundMessageNumberCounter c1,
                  reliableMessageNumber := reliableMessageNumber src,
                  priority := priority src, sendCount := 0, transfer := Some t,
                  fragmentIndex := of_nat idx,
                  data := take thisFragmentSize (drop byteOffset (data src)) \<rparr>) c1;
          c3 = c2\<lparr> outboundMessageNumberCounter := outboundMessageNumberCounter c2 + 1 \<rparr>;
          c4 = AddMessage t p c3
      in if internalQueue
         then c4\<lparr> outboundQueue := queueInsert (messages c4) p (outboundQueue c4) \<rparr>
         else if length (outboundAcceptQueue c4) < outboundAcceptQueueCapacity
         then c4\<lparr> outboundAcceptQueue := outboundAcceptQueue c4 @ [p] \<rparr>
         else c4)"

function splitLoop :: "bool \<Rightarrow> nat \<Rightarrow> NetworkMessage \<Rightarrow> transfer_ptr \<Rightarrow> nat \<Rightarrow> nat \<Rightarrow>
    connection \<Rightarrow> connection" where
  "splitLoop internalQueue maxFragmentSize src t byteOffset idx c =
     (if byteOffset < dataSize src \<and> 0 < maxFragmentSize
      then splitLoop internalQueue maxFragmentSize src t
             (byteOffset + min maxFragmentSize (dataSize src - byteOffset)) (idx + 1)
             (splitFragment internalQueue src t byteOffset idx
                (min maxFragmentSize (dataSize src - byteOffset)) c)
      else c)"
  by pat_completeness auto
termination
  by (relation "measure (\<lambda>(i, m, src, t, byteOffset, idx, c). dataSize src - byteOffset)") auto

declare splitLoop.simps [simp del]

text \<open>
  \<open>maxFragmentSize\<close> is a \<open>size_t\<close>: the division by it is undefined when it is zero,
  which is the result \<open>None\<close>.
\<close>

definition signalMsgsOut :: "connection \<Rightarrow> connection" where
  "signalMsgsOut c = (if \<not> bOutboundSendsPaused c then c\<lparr> eventMsgsOutAvailable := True \<rparr> else c)"

definition SplitAndQueueMessage :: "msg_ptr \<Rightarrow> bool \<Rightarrow> nat \<Rightarrow> connection \<Rightarrow> connection option" where
  "SplitAndQueueMessage p internalQueue maxFragmentSize c =
     (if maxFragmentSize = 0 then None
      else (let src = messages c p;
                totalNum = (dataSize src + maxFragmentSize - 1) div maxFragmentSize;
                (t, c1) = AllocateNewFragmentedTransfer c;
                c2 = c1\<lparr> transfers := (transfers c1)(t := (transfers c1 t)\<lparr> totalNumFragments := totalNum \<rparr>) \<rparr>;
                c3 = splitLoop internalQueue maxFragmentSize src t 0 0 c2
            in Some (FreeMessage p (signalMsgsOut c3))))"

text \<open>
  \<open>numBytes\<close> is \<open>None\<close> for the argument \<open>(size_t)(-1)\<close>. The fragment size
  \<open>MaxSendSize / 4 - 32\<close> is computed on \<open>size_t\<close> and wraps around below zero.
\<close>

definition setDataSize :: "msg_ptr \<Rightarrow> nat option \<Rightarrow> connection \<Rightarrow> connection" where
  "setDataSize p numBytes c =
     (case numBytes of None \<Rightarrow> c | Some n \<Rightarrow> updMsg p (\<lambda>m. m\<lparr> dataSize := n \<rparr>) c)"

text \<open>The part of EndAndQueueMessage behind the size check: a message that is not split.\<close>

definition queueUnsplitMessage :: "msg_ptr \<Rightarrow> bool \<Rightarrow> connection \<Rightarrow> connection" where
  "queueUnsplitMessage p internalQueue c =
     (let c1 = updMsg p (\<lambda>m. m\<lparr> messageNumber := outboundMessageNumberCounter c,
                    reliableMessageNumber :=
                      (if reliable m then outboundReliableMessageNumberCounter c else 0),
                    sendCount := 0 \<rparr>) c;
          c2 = c1\<lparr> outboundMessageNumberCounter := outboundMessageNumberCounter c + 1,
                  outboundReliableMessageNumberCounter :=
                    (if reliable (messages c p)
                     then outboundReliableMessageNumberCounter c + 1
                     else outboundReliableMessageNumberCounter c) \<rparr>
      in if internalQueue
         then signalMsgsOut (c2\<lparr> outboundQueue := queueInsert (messages c2) p (outboundQueue c2) \<rparr>)
         else if length (outboundAcceptQueue c2) < outboundAcceptQueueCapacity
         then signalMsgsOut (c2\<lparr> outboundAcceptQueue := outboundAcceptQueue c2 @ [p] \<rparr>)
         else FreeMessage p c2)"

definition EndAndQueueMessage :: "environment \<Rightarrow> msg_ptr \<Rightarrow> nat option \<Rightarrow> bool \<Rightarrow> connection \<Rightarrow>
    connection option" where
  "EndAndQueueMessage env p numBytes internalQueue c =
     (if obsolete (messages c p) \<or> \<not> socketExists env \<or> connectionState c = ConnectionClosed
           \<or> \<not> IsWriteOpen env c
      then Some (FreeMessage p c)
      else if dataSize (messages (setDataSize p numBytes c) p) + 32 > MaxSendSize env
      then SplitAndQueueMessage p internalQueue ((MaxSendSize env div 4 + 2 ^ 64 - 32) mod 2 ^ 64)
             (setDataSize p numBytes c)
      else Some (queueUnsplitMessage p internalQueue (setDataSize p numBytes c)))"

section \<open>Serialisation of fixed-width integers\<close>

text \<open>
  Modelled from the spec: DataSerializer and DataDeserializer are not among the sources.
  Fixed-width integers are written "little-endian".
\<close>

definition AddU16 :: "u16 \<Rightarrow> u8 list" where
  "AddU16 x = [ucast x, ucast (drop_bit 8 x)]"

definition AddU32 :: "u32 \<Rightarrow> u8 list" where
  "AddU32 x = [ucast x, ucast (drop_bit 8 x), ucast (drop_bit 16 x), ucast (drop_bit 24 x)]"

definition ReadU16 :: "u8 list \<Rightarrow> u16" where
  "ReadU16 bs = ucast (bs ! 0) OR push_bit 8 (ucast (bs ! 1))"

definition ReadU32 :: "u8 list \<Rightarrow> u32" where
  "ReadU32 bs = ucast (bs ! 0) OR push_bit 8 (ucast (bs ! 1)) OR push_bit 16 (ucast (bs ! 2))
                 OR push_bit 24 (ucast (bs ! 3))"

definition VLEReadError :: u32 where
  "VLEReadError = - 1"

section \<open>Sending packet acks\<close>

text \<open>
  The inner loop of SendPacketAckMessage: for \<open>i\<close> from 0 to 31 the id
  \<open>AddPacketID(packetID, i + 1)\<close> is looked up in the pending acks; a pending id sets
  bit \<open>i\<close> of \<open>sequence\<close> and is erased.
\<close>

definition ackBitStep :: "packet_id_t \<Rightarrow> nat \<Rightarrow> (packet_id_t \<times> PacketAckTrack) list \<times> u32 \<Rightarrow>
    (packet_id_t \<times> PacketAckTrack) list \<times> u32" where
  "ackBitStep pid i st =
     (if mapFind (AddPacketID pid (i + 1)) (fst st)
      then (mapErase (AddPacketID pid (i + 1)) (fst st), snd st OR push_bit i 1)
      else st)"

definition ackBitLoop :: "packet_id_t \<Rightarrow> (packet_id_t \<times> PacketAckTrack) list \<Rightarrow>
    (packet_id_t \<times> PacketAckTrack) list \<times> u32" where
  "ackBitLoop pid trk = fold (ackBitStep pid) [0..<32] (trk, 0)"

definition ackPayload :: "packet_id_t \<Rightarrow> u32 \<Rightarrow> u8 list" where
  "ackPayload pid sequence = [ucast (pid AND 0xFF)] @ AddU16 (ucast (drop_bit 8 pid)) @ AddU32 sequence"

text \<open>One iteration of the outer loop of SendPacketAckMessage: one ack message.\<close>

definition sendOneAck :: "environment \<Rightarrow> connection \<Rightarrow> connection option" where
  "sendOneAck env c =
     (let pid = fst (hd (inboundPacketAckTrack c));
          r = ackBitLoop pid (mapErase pid (inboundPacketAckTrack c));
          c1 = c\<lparr> inboundPacketAckTrack := fst r \<rparr>;
          (p, c2) = StartNewMessage (MsgIdPacketAck env) 7 c1;
          c3 = updMsg p (\<lambda>m. m\<lparr> data := ackPayload pid (snd r), priority := cMaxPriority env - 1 \<rparr>) c2
      in EndAndQueueMessage env p (Some 7) True c3)"

text \<open>Queueing a message leaves the pending inbound acks alone.\<close>

lemma updMsg_inboundPacketAckTrack [simp]:
  "inboundPacketAckTrack (updMsg p f c) = inboundPacketAckTrack c"
  by (simp add: updMsg_def)

lemma FreeMessage_inboundPacketAckTrack [simp]:
  "inboundPacketAckTrack (FreeMessage p c) = inboundPacketAckTrack c"
  by (simp add: FreeMessage_def)

lemma signalMsgsOut_inboundPacketAckTrack [simp]:
  "inboundPacketAckTrack (signalMsgsOut c) = inboundPacketAckTrack c"
  by (simp add: signalMsgsOut_def)

lemma StartNewMessage_inboundPacketAckTrack [simp]:
  "inboundPacketAckTrack (snd (StartNewMessage i n c)) = inboundPacketAckTrack c"
  by (simp add: StartNewMessage_def AllocateNewMessage_def)

lemma splitFragment_inboundPacketAckTrack [simp]:
  "inboundPacketAckTrack (splitFragment i src t b idx n c) = inboundPacketAckTrack c"
  by (simp add: splitFragment_def AddMessage_def Let_def split_beta)

lemma splitLoop_inboundPacketAckTrack [simp]:
  "inboundPacketAckTrack (splitLoop i m src t b idx c) = inboundPacketAckTrack c"
proof (induction i m src t b idx c rule: splitLoop.induct)
  case (1 i m src t b idx c)
  show ?case
    apply (subst splitLoop.simps)
    using 1 by simp
qed

lemma setDataSize_inboundPacketAckTrack [simp]:
  "inboundPacketAckTrack (setDataSize p n c) = inboundPacketAckTrack c"
  by (simp add: setDataSize_def split: option.splits)

lemma queueUnsplitMessage_inboundPacketAckTrack [simp]:
  "inboundPacketAckTrack (queueUnsplitMessage p i c) = inboundPacketAckTrack c"
  by (simp add: queueUnsplitMessage_def Let_def)

lemma SplitAndQueueMessage_inboundPacketAckTrack:
  "SplitAndQueueMessage p i n c = Some c' \<Longrightarrow> inboundPacketAckTrack c' = inboundPacketAckTrack c"
  by (auto simp: SplitAndQueueMessage_def AllocateNewFragmentedTransfer_def Let_def
      split: if_splits)

lemma EndAndQueueMessage_inboundPacketAckTrack:
  "EndAndQueueMessage env p n i c = Some c' \<Longrightarrow> inboundPacketAckTrack c' = inboundPacketAckTrack c"
  by (auto simp: EndAndQueueMessage_def dest: SplitAndQueueMessage_inboundPacketAckTrack
      split: if_splits)

lemma mapErase_length: "length (mapErase k xs) \<le> length xs"
  by (simp add: mapErase_def)

lemma mapErase_hd_length: "xs \<noteq> [] \<Longrightarrow> length (mapErase (fst (hd xs)) xs) < length xs"
  by (cases xs) (simp_all add: mapErase_def le_imp_less_Suc)

lemma ackBitFold_length: "length (fst (fold (ackBitStep pid) js st)) \<le> length (fst st)"
proof (induction js arbitrary: st)
  case Nil
  show ?case by simp
next
  case (Cons j js)
  have "length (fst (ackBitStep pid j st)) \<le> length (fst st)"
    by (simp add: ackBitStep_def mapErase_length)
  with Cons [of "ackBitStep pid j st"] show ?case by simp
qed

lemma ackBitLoop_length: "length (fst (ackBitLoop pid trk)) \<le> length trk"
  using ackBitFold_length [of pid "[0..<32]" "(trk, 0)"] by (simp add: ackBitLoop_def)

lemma sendOneAck_shrinks:
  assumes "sendOneAck env c = Some c'" and "inboundPacketAckTrack c \<noteq> []"
  shows "length (inboundPacketAckTrack c') < length (inboundPacketAckTrack c)"
proof -
  let ?pid = "fst (hd (inboundPacketAckTrack c))"
  let ?r = "ackBitLoop ?pid (mapErase ?pid (inboundPacketAckTrack c))"
  have "inboundPacketAckTrack c' = fst ?r"
    using assms(1)
    by (auto simp: sendOneAck_def Let_def split_beta
        dest!: EndAndQueueMessage_inboundPacketAckTrack)
  moreover have "length (fst ?r) \<le> length (mapErase ?pid (inboundPacketAckTrack c))"
    by (rule ackBitLoop_length)
  ultimately show ?thesis
    using mapErase_hd_length [OF assms(2)] by simp
qed

function SendPacketAckMessage :: "environment \<Rightarrow> connection \<Rightarrow> connection option" where
  "SendPacketAckMessage env c =
     (if inboundPacketAckTrack c \<noteq> []
      then (case sendOneAck env c of None \<Rightarrow> None | Some c' \<Rightarrow> SendPacketAckMessage env c')
      else Some c)"
  by pat_completeness auto
termination
  by (relation "measure (\<lambda>(env, c). length (inboundPacketAckTrack c))")
    (auto dest: sendOneAck_shrinks)

declare SendPacketAckMessage.simps [simp del]

lemma SendPacketAckMessage_empties:
  "SendPacketAckMessage env c = Some c' \<Longrightarrow> inboundPacketAckTrack c' = []"
proof (induction env c rule: SendPacketAckMessage.induct)
  case (1 env c)
  from "1.prems" show ?case
    by (subst (asm) SendPacketAckMessage.simps) (auto split: if_splits option.splits dest: "1.IH")
qed

function PerformPacketAckSends :: "environment \<Rightarrow> connection \<Rightarrow> connection option" where
  "PerformPacketAckSends env c =
     (if inboundPacketAckTrack c \<noteq> []
      then (if TimespanToMillisecondsF env (sentTick (snd (hd (inboundPacketAckTrack c)))) (now env)
                 < maxAckDelay
               \<and> length (inboundPacketAckTrack c) < 33
            then Some c
            else (case SendPacketAckMessage env c of
                    None \<Rightarrow> None
                  | Some c' \<Rightarrow> PerformPacketAckSends env c'))
      else Some c)"
  by pat_completeness auto
termination
  by (relation "measure (\<lambda>(env, c). length (inboundPacketAckTrack c))")
    (auto dest: SendPacketAckMessage_empties)

declare PerformPacketAckSends.simps [simp del]

section \<open>A sample environment\<close>

text \<open>
  An environment for evaluating the model on concrete inputs. Its codec is modelled from
  the spec ("a leading byte encodes the width via ... flag bits; decoders must reject
  unknown flag combinations with a well-known sentinel error"): the VLE codec is not among
  the sources. The top bit of the leading byte (of the leading 16-bit word for the 16/32
  width) says that more bits follow. The theorems that speak of every environment do not
  depend on it.
\<close>

definition sampleReadU8 :: "u8 list \<Rightarrow> u8 \<times> nat" where
  "sampleReadU8 bs = (case bs of [] \<Rightarrow> (0, 0) | b # _ \<Rightarrow> (b, 1))"

definition sampleReadVLE8_16 :: "u8 list \<Rightarrow> u32 \<times> nat" where
  "sampleReadVLE8_16 bs =
     (case bs of
        [] \<Rightarrow> (VLEReadError, 0)
      | b0 # r \<Rightarrow>
          if \<not> bit b0 7 then (ucast b0, 1)
          else (case r of
                  [] \<Rightarrow> (VLEReadError, 0)
                | b1 # _ \<Rightarrow> (ucast (b0 AND 0x7F) OR push_bit 7 (ucast b1), 2)))"

definition sampleReadVLE16_32 :: "u8 list \<Rightarrow> u32 \<times> nat" where
  "sampleReadVLE16_32 bs =
     (if length bs < 2 then (VLEReadError, 0)
      else if \<not> bit (ReadU16 bs) 15 then (ucast (ReadU16 bs), 2)
      else if length bs < 4 then (VLEReadError, 0)
      else (ucast (ReadU16 bs AND 0x7FFF) OR push_bit 15 (ucast (ReadU16 (drop 2 bs))), 4))"

definition sampleReadVLE8_16_32 :: "u8 list \<Rightarrow> u32 \<times> nat" where
  "sampleReadVLE8_16_32 bs =
     (case bs of
        [] \<Rightarrow> (VLEReadError, 0)
      | b0 # r \<Rightarrow>
          if \<not> bit b0 7 then (ucast b0, 1)
          else (case r of
                  [] \<Rightarrow> (VLEReadError, 0)
                | b1 # r' \<Rightarrow>
                    if \<not> bit b1 7 then (ucast (b0 AND 0x7F) OR push_bit 7 (ucast b1), 2)
                    else if length r' < 2 then (VLEReadError, 0)
                    else (ucast (b0 AND 0x7F) OR push_bit 7 (ucast (b1 AND 0x7F))
                            OR push_bit 14 (ucast (ReadU16 r')), 4)))"

definition sampleAddVLE8_16 :: "u32 \<Rightarrow> u8 list" where
  "sampleAddVLE8_16 v =
     (if v < 2 ^ 7 then [ucast v] else [ucast (v AND 0x7F) OR 0x80, ucast (drop_bit 7 v)])"

definition sampleAddVLE16_32 :: "u32 \<Rightarrow> u8 list" where
  "sampleAddVLE16_32 v =
     (if v < 2 ^ 15 then AddU16 (ucast v)
      else AddU16 (ucast (v AND 0x7FFF) OR 0x8000) @ AddU16 (ucast (drop_bit 15 v)))"

definition sampleAddVLE8_16_32 :: "u32 \<Rightarrow> u8 list" where
  "sampleAddVLE8_16_32 v =
     (if v < 2 ^ 7 then [ucast v]
      else if v < 2 ^ 14 then [ucast (v AND 0x7F) OR 0x80, ucast (drop_bit 7 v AND 0x7F)]
      else [ucast (v AND 0x7F) OR 0x80, ucast (drop_bit 7 v AND 0x7F) OR 0x80]
             @ AddU16 (ucast (drop_bit 14 v)))"

definition sampleGetEncodedBitLength8_16_32 :: "u32 \<Rightarrow> nat" where
  "sampleGetEncodedBitLength8_16_32 v = (if v < 2 ^ 7 then 8 else if v < 2 ^ 14 then 16 else 32)"

definition sampleEnvironment :: environment where
  "sampleEnvironment =
     \<lparr> now = 0, TicksPerSec = 1000, socketExists = True, socketIsWriteOpen = True,
       socketBeginSend = True, socketEndSend = True, MaxSendSize = 1400,
       ReadU8 = sampleReadU8, ReadVLE8_16 = sampleReadVLE8_16, ReadVLE16_32 = sampleReadVLE16_32,
       ReadVLE8_16_32 = sampleReadVLE8_16_32, AddVLE8_16 = sampleAddVLE8_16,
       AddVLE16_32 = sampleAddVLE16_32, AddVLE8_16_32 = sampleAddVLE8_16_32,
       GetEncodedBitLength8_16_32 = sampleGetEncodedBitLength8_16_32,
       hasInboundMessageHandler = False, ComputeContentID = (\<lambda>i bs. 0),
       MsgIdPingRequest = 1, MsgIdPingReply = 2, MsgIdFlowControlRequest = 3, MsgIdPacketAck = 4,
       MsgIdDisconnect = 0x3FFFFFFF, MsgIdDisconnectAck = 0x3FFFFFFE, cMaxPriority = 0xFFFFFFFF \<rparr>"

section \<open>The disconnect acknowledgement\<close>

text \<open>
  Claim C10. HandleDisconnectAckMessage sets the connection state to ConnectionClosed
  whatever the state was before: Pending, OK, Disconnecting, PeerClosed or Closed.
\<close>

theorem HandleDisconnectAckMessage_closes:
  "connectionState (HandleDisconnectAckMessage (c\<lparr> connectionState := st \<rparr>)) = ConnectionClosed"
  by (simp add: HandleDisconnectAckMessage_def)

section \<open>Bounds of the retransmission timeout\<close>

lemma UpdateRTOCounterOnPacketAck_bounds:
  "minRTOTimeoutValue \<le> retransmissionTimeout (UpdateRTOCounterOnPacketAck r c)
   \<and> retransmissionTimeout (UpdateRTOCounterOnPacketAck r c) \<le> maxRTOTimeoutValue"
  by (simp add: UpdateRTOCounterOnPacketAck_def Let_def minRTOTimeoutValue_def maxRTOTimeoutValue_def)

lemma UpdateRTOCounterOnPacketLoss_bounds:
  "minRTOTimeoutValue \<le> retransmissionTimeout (UpdateRTOCounterOnPacketLoss c)
   \<and> retransmissionTimeout (UpdateRTOCounterOnPacketLoss c) \<le> maxRTOTimeoutValue"
  by (simp add: UpdateRTOCounterOnPacketLoss_def Let_def minRTOTimeoutValue_def maxRTOTimeoutValue_def)

text \<open>
  Claim C3. The retransmission timeout is meant to lie between 1000 and 5000 in every
  state, the initial one included. Both the constructor and Initialize set it to 3, which
  is below the minimum 1000: the bound holds only after the first update.
\<close>

theorem initial_retransmissionTimeout_below_minimum:
  "retransmissionTimeout (UDPMessageConnection env st) = 3
   \<and> retransmissionTimeout (Initialize env c) = 3
   \<and> \<not> minRTOTimeoutValue \<le> retransmissionTimeout (Initialize env (UDPMessageConnection env st))"
  by (simp add: UDPMessageConnection_def Initialize_def minRTOTimeoutValue_def)

section \<open>The round trip time on a ping reply\<close>

lemma pingReplyLoop_first:
  assumes "i < length ps" and "pingID (ps ! i) = pid" and "\<not> replyReceived (ps ! i)"
    and "\<forall>j<i. pingID (ps ! j) = pid \<longrightarrow> replyReceived (ps ! j)"
  shows "\<exists>ps'. pingReplyLoop env pid ps =
           Some (ps', TicksToMillisecondsD env (TicksInBetween (now env) (pingSentTick (ps ! i))))"
  using assms
proof (induction ps arbitrary: i)
  case Nil
  then show ?case by simp
next
  case (Cons p ps)
  show ?case
  proof (cases i)
    case 0
    with Cons.prems show ?thesis by (simp add: Let_def)
  next
    case (Suc k)
    have "pingID p = pid \<longrightarrow> replyReceived p"
      using Cons.prems(4) Suc by auto
    moreover have "\<exists>ps'. pingReplyLoop env pid ps =
           Some (ps', TicksToMillisecondsD env (TicksInBetween (now env) (pingSentTick (ps ! k))))"
      using Cons.prems Suc by (intro Cons.IH) auto
    ultimately show ?thesis
      using Suc by auto
  qed
qed

text \<open>
  Claim C7. When the reply matches a pending ping entry (the first entry with the received
  ping id that has no reply yet), the rtt field becomes 0.5 * newRtt + 0.5 * (previous rtt),
  where newRtt is the time in milliseconds between the tick the ping was sent at and the
  tick of the reply.
\<close>

theorem HandlePingReplyMessage_rtt:
  assumes "i < length (ping c)" and "pingID (ping c ! i) = pid"
    and "\<not> replyReceived (ping c ! i)"
    and "\<forall>j<i. pingID (ping c ! j) = pid \<longrightarrow> replyReceived (ping c ! j)"
  shows "rtt (HandlePingReplyMessage env [pid] c) =
           0.5 * TicksToMillisecondsD env (TicksInBetween (now env) (pingSentTick (ping c ! i)))
           + 0.5 * rtt c"
proof -
  obtain ps' where "pingReplyLoop env pid (ping c) =
      Some (ps', TicksToMillisecondsD env (TicksInBetween (now env) (pingSentTick (ping c ! i))))"
    using pingReplyLoop_first [OF assms] by blast
  then show ?thesis
    by (simp add: HandlePingReplyMessage_def)
qed

definition pingSample :: connection where
  "pingSample = (UDPMessageConnection sampleEnvironment ConnectionOK)
     \<lparr> ping := [\<lparr> pingID = 7, pingSentTick = 100, pingReplyTick = 0, replyReceived = False \<rparr>],
       rtt := 30 \<rparr>"

theorem HandlePingReplyMessage_rtt_witness:
  "rtt (HandlePingReplyMessage (sampleEnvironment\<lparr> now := 150 \<rparr>) [7] pingSample) = 40"
  using HandlePingReplyMessage_rtt [of 0 pingSample 7 "sampleEnvironment\<lparr> now := 150 \<rparr>"]
  by (simp add: pingSample_def sampleEnvironment_def TicksToMillisecondsD_def TicksInBetween_def)

section \<open>The pacing tick after a send\<close>

lemma word_div_less_20:
  fixes a d :: tick_t
  assumes "d \<noteq> 0"
  shows "a div d < 20 \<longleftrightarrow> unat a < 20 * unat d"
proof -
  have "0 < unat d"
    using assms by (simp add: unat_gt_0)
  then have "unat a div unat d < 20 \<longleftrightarrow> unat a < 20 * unat d"
    by (simp add: div_less_iff_less_mult)
  then show ?thesis
    by (simp add: word_less_nat_alt unat_div)
qed

text \<open>
  Claim C6, as the code has it. After a successful send NewDatagramSent advances
  lastDatagramSendTime by one slot of TicksPerSec / datagramSendRate ticks, unless the
  engine has fallen twenty or more slots behind the current tick (the span since
  lastDatagramSendTime is at least twenty slots), in which case lastDatagramSendTime is
  set to the current tick. No other field changes.
\<close>

theorem NewDatagramSent_slot:
  assumes "0 < datagramSendRate c" and "datagramSendTickDelay env c \<noteq> 0"
  shows "NewDatagramSent env c =
           Some (c\<lparr> lastDatagramSendTime :=
                   (if 20 * unat (datagramSendTickDelay env c)
                         \<le> unat (TicksInBetween (now env) (lastDatagramSendTime c))
                    then now env
                    else lastDatagramSendTime c + datagramSendTickDelay env c) \<rparr>)"
  using assms by (simp add: NewDatagramSent_def word_div_less_20 not_less)

definition pacingSample :: connection where
  "pacingSample = Initialize sampleEnvironment (UDPMessageConnection sampleEnvironment ConnectionOK)"

lemma pacingSample_delay:
  "datagramSendTickDelay (sampleEnvironment\<lparr> now := t \<rparr>) pacingSample = 14"
  by (simp add: datagramSendTickDelay_def pacingSample_def Initialize_def sampleEnvironment_def)

lemma pacingSample_last: "lastDatagramSendTime pacingSample = 0"
  by (simp add: pacingSample_def Initialize_def sampleEnvironment_def)

lemma pacingSample_rate: "0 < datagramSendRate pacingSample"
  by (simp add: pacingSample_def Initialize_def)

theorem NewDatagramSent_slot_witness:
  "NewDatagramSent (sampleEnvironment\<lparr> now := 100 \<rparr>) pacingSample =
     Some (pacingSample\<lparr> lastDatagramSendTime := 14 \<rparr>)"
  using NewDatagramSent_slot [of pacingSample "sampleEnvironment\<lparr> now := 100 \<rparr>", OF pacingSample_rate]
  by (simp add: pacingSample_delay TicksInBetween_def pacingSample_last)

text \<open>
  The claim as the spec words it ("more than twenty slots behind") fails when the engine
  is exactly twenty slots behind: with a slot of 14 ticks and a span of 280 ticks the
  engine is not more than twenty slots behind, yet lastDatagramSendTime jumps to the
  current tick 280 and is not advanced by one slot to 14.
\<close>

theorem NewDatagramSent_twenty_slots_counterexample:
  "unat (TicksInBetween (now (sampleEnvironment\<lparr> now := 280 \<rparr>)) (lastDatagramSendTime pacingSample))
     = 20 * unat (datagramSendTickDelay (sampleEnvironment\<lparr> now := 280 \<rparr>) pacingSample)
   \<and> lastDatagramSendTime pacingSample
       + datagramSendTickDelay (sampleEnvironment\<lparr> now := 280 \<rparr>) pacingSample = 14
   \<and> NewDatagramSent (sampleEnvironment\<lparr> now := 280 \<rparr>) pacingSample
       = Some (pacingSample\<lparr> lastDatagramSendTime := 280 \<rparr>)
   \<and> NewDatagramSent (sampleEnvironment\<lparr> now := 280 \<rparr>) pacingSample
       \<noteq> Some (pacingSample\<lparr> lastDatagramSendTime := 14 \<rparr>)"
proof -
  note l = pacingSample_last and r = pacingSample_rate
  have n: "NewDatagramSent (sampleEnvironment\<lparr> now := 280 \<rparr>) pacingSample
       = Some (pacingSample\<lparr> lastDatagramSendTime := 280 \<rparr>)"
    using r by (simp add: NewDatagramSent_def pacingSample_delay TicksInBetween_def l word_div_less_20)
  have "pacingSample\<lparr> lastDatagramSendTime := 280 \<rparr> \<noteq> pacingSample\<lparr> lastDatagramSendTime := 14 \<rparr>"
  proof
    assume "pacingSample\<lparr> lastDatagramSendTime := 280 \<rparr> = pacingSample\<lparr> lastDatagramSendTime := 14 \<rparr>"
    then have "lastDatagramSendTime (pacingSample\<lparr> lastDatagramSendTime := 280 \<rparr>)
        = lastDatagramSendTime (pacingSample\<lparr> lastDatagramSendTime := 14 \<rparr>)"
      by (rule arg_cong)
    then show False by simp
  qed
  with n show ?thesis
    by (simp add: pacingSample_delay TicksInBetween_def l)
qed

section \<open>Accepting outbound messages\<close>

text \<open>
  Modelled from the spec: NetworkMessage::IsNewerThan is declared in a header that is not
  among the sources. Of two messages the older one is found "by messageNumber, comparing
  with wrap".
\<close>

definition IsNewerThan :: "NetworkMessage \<Rightarrow> NetworkMessage \<Rightarrow> bool" where
  "IsNewerThan a b =
     (messageNumber a \<noteq> messageNumber b \<and> messageNumber a - messageNumber b < 2 ^ 31)"

definition CheckAndSaveOutboundMessageWithContentID :: "msg_ptr \<Rightarrow> connection \<Rightarrow> connection" where
  "CheckAndSaveOutboundMessageWithContentID p c =
     (if contentID (messages c p) = 0 then c
      else (let key = (msgId (messages c p), contentID (messages c p))
            in (case outboundContentIDMessages c key of
                  Some q \<Rightarrow>
                    if IsNewerThan (messages c p) (messages c q)
                    then (updMsg q (\<lambda>m. m\<lparr> obsolete := True \<rparr>) c)
                           \<lparr> outboundContentIDMessages := (outboundContentIDMessages c)(key \<mapsto> p) \<rparr>
                    else updMsg p (\<lambda>m. m\<lparr> obsolete := True \<rparr>) c
                | None \<Rightarrow>
                    c\<lparr> outboundContentIDMessages := (outboundContentIDMessages c)(key \<mapsto> p) \<rparr>)))"

text \<open>The body of the loop of AcceptOutboundMessages: one message changes queues.\<close>

definition acceptMessage :: "connection \<Rightarrow> connection" where
  "acceptMessage c =
     (let p = hd (outboundAcceptQueue c);
          c1 = c\<lparr> outboundAcceptQueue := tl (outboundAcceptQueue c) \<rparr>;
          c2 = c1\<lparr> outboundQueue := queueInsert (messages c1) p (outboundQueue c1) \<rparr>
      in CheckAndSaveOutboundMessageWithContentID p c2)"

text \<open>
  \<open>while(outboundAcceptQueue.Size() > 0 && --numMessagesToAcceptPerFrame > 0)\<close>:
  \<open>n\<close> is the counter before the test.
\<close>

function acceptLoop :: "int \<Rightarrow> connection \<Rightarrow> connection" where
  "acceptLoop n c =
     (if outboundAcceptQueue c \<noteq> [] \<and> n - 1 > 0 then acceptLoop (n - 1) (acceptMessage c) else c)"
  by pat_completeness auto
termination
  by (relation "measure (\<lambda>(n, c). nat n)") auto

declare acceptLoop.simps [simp del]

definition AcceptOutboundMessages :: "connection \<Rightarrow> connection" where
  "AcceptOutboundMessages c =
     (if connectionState c \<noteq> ConnectionOK then c else acceptLoop 500 c)"

lemma queueInsert_length [simp]: "length (queueInsert ms p q) = Suc (length q)"
  by (induction q) simp_all

lemma queueInsert_set [simp]: "set (queueInsert ms p q) = insert p (set q)"
  by (induction q) auto

lemma CheckAndSave_queues [simp]:
  "outboundAcceptQueue (CheckAndSaveOutboundMessageWithContentID p c) = outboundAcceptQueue c"
  "outboundQueue (CheckAndSaveOutboundMessageWithContentID p c) = outboundQueue c"
  by (simp_all add: CheckAndSaveOutboundMessageWithContentID_def updMsg_def Let_def
      split: option.splits)

lemma acceptMessage_queues [simp]:
  "outboundAcceptQueue (acceptMessage c) = tl (outboundAcceptQueue c)"
  "length (outboundQueue (acceptMessage c)) = Suc (length (outboundQueue c))"
  by (simp_all add: acceptMessage_def Let_def)

lemma acceptLoop_queues:
  "outboundAcceptQueue (acceptLoop n c) = drop (nat (n - 1)) (outboundAcceptQueue c)
   \<and> length (outboundQueue (acceptLoop n c)) =
       length (outboundQueue c) + min (length (outboundAcceptQueue c)) (nat (n - 1))"
proof (induction n c rule: acceptLoop.induct)
  case (1 n c)
  show ?case
  proof (cases "outboundAcceptQueue c \<noteq> [] \<and> n - 1 > 0")
    case True
    then have n: "nat (n - 1) = Suc (nat (n - 1 - 1))"
      by arith
    obtain x xs where q: "outboundAcceptQueue c = x # xs"
      using True by (cases "outboundAcceptQueue c") auto
    show ?thesis
      using True "1.IH" [OF True]
      by (subst (1 2) acceptLoop.simps) (simp add: n q del: One_nat_def)
  next
    case False
    then show ?thesis
      by (subst (1 2) acceptLoop.simps) auto
  qed
qed

text \<open>
  With a connection in state OK and N messages in the accept queue, one call moves
  min(N, 499) messages: the counter starts at 500 and is decremented before it is tested.
\<close>

lemma AcceptOutboundMessages_moves:
  assumes "connectionState c = ConnectionOK"
  shows "outboundAcceptQueue (AcceptOutboundMessages c) = drop 499 (outboundAcceptQueue c)
   \<and> length (outboundQueue (AcceptOutboundMessages c)) =
       length (outboundQueue c) + min (length (outboundAcceptQueue c)) 499"
  using assms acceptLoop_queues [of 500 c] by (simp add: AcceptOutboundMessages_def)

definition acceptSample :: connection where
  "acceptSample = (UDPMessageConnection sampleEnvironment ConnectionOK)
     \<lparr> poolNext := 500, outboundAcceptQueue := [0..<500] \<rparr>"

text \<open>
  Claim C8. One call of AcceptOutboundMessages in state OK is meant to move min(N, 500)
  messages. With 500 messages in the accept queue the call moves 499 messages into the
  send priority queue and leaves the last one, message 499, in the accept queue.
\<close>

theorem AcceptOutboundMessages_500_moves_499:
  "connectionState acceptSample = ConnectionOK
   \<and> length (outboundAcceptQueue acceptSample) = 500
   \<and> outboundQueue acceptSample = []
   \<and> length (outboundQueue (AcceptOutboundMessages acceptSample)) = 499
   \<and> outboundAcceptQueue (AcceptOutboundMessages acceptSample) = [499]"
proof -
  have s: "connectionState acceptSample = ConnectionOK"
    by (simp add: acceptSample_def UDPMessageConnection_def)
  have q: "outboundAcceptQueue acceptSample = [0..<500]" "outboundQueue acceptSample = []"
    by (simp_all add: acceptSample_def UDPMessageConnection_def)
  have "drop 499 [0..<500] = [499::nat]"
    by (simp add: drop_upt)
  with AcceptOutboundMessages_moves [OF s] s q show ?thesis
    by simp
qed

section \<open>Receiving packet acks\<close>

text \<open>
  Modelled from the spec: OrderedHashTable is not among the sources. The reliable-ack
  tracker is an "ordered map keyed by outbound packet id", walked "in send order": a list
  in the order of insertion, searched and pruned by packet id.
\<close>

definition freeTrackMessage :: "msg_ptr \<Rightarrow> connection \<Rightarrow> connection" where
  "freeTrackMessage m c =
     FreeMessage m (case transfer (messages c m) of Some t \<Rightarrow> RemoveMessage t m c | None \<Rightarrow> c)"

definition FreeOutboundPacketAckTrack :: "environment \<Rightarrow> packet_id_t \<Rightarrow> connection \<Rightarrow> connection" where
  "FreeOutboundPacketAckTrack env pid c =
     (case find (\<lambda>t. packetID t = pid) (outboundPacketAckTrack c) of
        None \<Rightarrow> c
      | Some track \<Rightarrow>
          (let c1 = fold freeTrackMessage (trackMessages track) c;
               c2 = (if trackSendCount track \<le> 1
                     then (UpdateRTOCounterOnPacketAck
                             (TimespanToSecondsD env (sentTick track) (now env)) c1)
                            \<lparr> numAcksLastFrame := numAcksLastFrame c1 + 1 \<rparr>
                     else c1)
           in c2\<lparr> outboundPacketAckTrack :=
                    filter (\<lambda>t. packetID t \<noteq> pid) (outboundPacketAckTrack c2) \<rparr>))"

definition ackFreeStep :: "environment \<Rightarrow> packet_id_t \<Rightarrow> u32 \<Rightarrow> nat \<Rightarrow> connection \<Rightarrow> connection" where
  "ackFreeStep env pid sequence i c =
     (if sequence AND push_bit i 1 \<noteq> 0
      then FreeOutboundPacketAckTrack env (AddPacketID pid (1 + i)) c
      else c)"

definition HandlePacketAckMessage :: "environment \<Rightarrow> u8 list \<Rightarrow> connection \<Rightarrow> connection" where
  "HandlePacketAckMessage env bytes c =
     (if length bytes \<noteq> 7 then c
      else (let packetIDLow = (ucast (bytes ! 0) :: packet_id_t);
                packetIDHigh = (ucast (ReadU16 (drop 1 bytes)) :: packet_id_t);
                pid = packetIDLow OR push_bit 8 packetIDHigh;
                sequence = ReadU32 (drop 3 bytes);
                c1 = FreeOutboundPacketAckTrack env pid c
            in fold (ackFreeStep env pid sequence) [0..<32] c1))"

section \<open>The round trip of a packet ack\<close>

lemma ReadU16_AddU16: "ReadU16 (AddU16 x @ bs) = x"
  unfolding ReadU16_def AddU16_def
  by (rule bit_word_eqI) (auto simp: bit_simps)

lemma ReadU32_AddU32: "ReadU32 (AddU32 x @ bs) = x"
  unfolding ReadU32_def AddU32_def
  apply (rule bit_word_eqI)
  subgoal for n
    by (cases "n < 8"; cases "n < 16"; cases "n < 24") (auto simp: bit_simps)
  done

lemma packetID_low_high:
  fixes pid :: packet_id_t
  assumes "pid < 2 ^ 22"
  shows "(ucast (ucast (pid AND 0xFF) :: u8) :: packet_id_t)
           OR push_bit 8 (ucast (ucast (drop_bit 8 pid) :: u16)) = pid"
proof -
  have m: "(0xFF :: packet_id_t) = mask 8"
    by (simp add: mask_eq_exp_minus_1)
  have e: "pid AND mask 22 = pid"
    using assms by (rule less_mask_eq)
  have hi: "\<not> bit pid k" if "22 \<le> k" for k
  proof -
    have "bit pid k \<longleftrightarrow> bit (pid AND mask 22) k"
      by (simp only: e)
    with that show ?thesis
      by (simp add: bit_simps)
  qed
  show ?thesis
    unfolding m
    apply (rule bit_word_eqI)
    subgoal for n
      using hi [of n] by (cases "n < 8"; cases "n < 22") (auto simp: bit_simps)
    done
qed

lemma unat_AddPacketID: "unat (AddPacketID pid n) = (unat pid + n) mod 2 ^ 22"
proof -
  have "AddPacketID pid n = take_bit 22 (pid + of_nat n)"
    by (simp only: AddPacketID_def take_bit_eq_mask)
  then have "unat (AddPacketID pid n) = take_bit 22 (unat (pid + of_nat n))"
    by (simp only: unsigned_take_bit_eq)
  also have "\<dots> = unat (pid + of_nat n) mod 2 ^ 22"
    by (rule take_bit_eq_mod)
  also have "unat (pid + of_nat n) = (unat pid + n mod 2 ^ 32) mod 2 ^ 32"
    by (simp add: unat_word_ariths unat_of_nat)
  also have "\<dots> mod 2 ^ 22 = (unat pid + n mod 2 ^ 32) mod 2 ^ 22"
    by (rule mod_mod_cancel) (simp add: le_imp_power_dvd)
  also have "\<dots> = (unat pid + n) mod 2 ^ 22"
  proof -
    have "(n mod 2 ^ 32) mod 2 ^ 22 = n mod (2 ^ 22 :: nat)"
      by (rule mod_mod_cancel) (simp add: le_imp_power_dvd)
    then show ?thesis
      by (metis mod_add_right_eq)
  qed
  finally show ?thesis .
qed

lemma mod_shift_inj:
  fixes a i j M :: nat
  assumes "(a + i) mod M = (a + j) mod M" and "i < M" and "j < M"
  shows "i = j"
proof -
  have "int ((a + i) mod M) = int ((a + j) mod M)"
    using assms(1) by simp
  then have "(int a + int i) mod int M = (int a + int j) mod int M"
    by (simp add: of_nat_mod)
  then have "int M dvd (int a + int i) - (int a + int j)"
    by (simp add: mod_eq_dvd_iff)
  then have d: "int M dvd int i - int j"
    by simp
  have lt: "\<bar>int i - int j\<bar> < int M"
    using assms(2,3) by linarith
  have "int i - int j = 0"
  proof (rule ccontr)
    assume "int i - int j \<noteq> 0"
    from dvd_imp_le_int [OF this d] lt show False by simp
  qed
  then show ?thesis by simp
qed

lemma AddPacketID_inj:
  assumes "AddPacketID pid (Suc i) = AddPacketID pid (Suc j)" and "i < 32" and "j < 32"
  shows "i = j"
proof -
  have "unat (AddPacketID pid (Suc i)) = unat (AddPacketID pid (Suc j))"
    using assms(1) by simp
  then have "(unat pid + Suc i) mod 2 ^ 22 = (unat pid + Suc j) mod 2 ^ 22"
    by (simp only: unat_AddPacketID)
  moreover have "Suc i < 2 ^ 22" "Suc j < 2 ^ 22"
    using assms(2,3) by simp_all
  ultimately have "Suc i = Suc j"
    by (rule mod_shift_inj)
  then show ?thesis by simp
qed

lemma AddPacketID_neq:
  assumes "pid < 2 ^ 22" and "i < 32"
  shows "AddPacketID pid (Suc i) \<noteq> pid"
proof
  assume "AddPacketID pid (Suc i) = pid"
  then have "unat (AddPacketID pid (Suc i)) = unat pid"
    by simp
  then have "(unat pid + Suc i) mod 2 ^ 22 = unat pid"
    by (simp only: unat_AddPacketID)
  moreover have u: "unat pid < 2 ^ 22"
    using assms(1) by (simp add: word_less_nat_alt)
  ultimately have "(unat pid + Suc i) mod 2 ^ 22 = (unat pid + 0) mod 2 ^ 22"
    by simp
  moreover have "Suc i < 2 ^ 22" "(0::nat) < 2 ^ 22"
    using assms(2) by simp_all
  ultimately have "Suc i = 0"
    by (rule mod_shift_inj)
  then show False by simp
qed

lemma mapFind_mapErase: "mapFind k (mapErase k' xs) \<longleftrightarrow> k \<noteq> k' \<and> mapFind k xs"
  by (auto simp: mapFind_def mapErase_def)

lemma mapErase_absent: "\<not> mapFind k xs \<Longrightarrow> mapErase k xs = xs"
  by (induction xs) (auto simp: mapFind_def mapErase_def)

lemma ackBitStep_fst: "fst (ackBitStep pid i st) = mapErase (AddPacketID pid (Suc i)) (fst st)"
  by (simp add: ackBitStep_def mapErase_absent)

lemma ackBitStep_snd:
  "n < 32 \<Longrightarrow> bit (snd (ackBitStep pid i st)) n \<longleftrightarrow>
     bit (snd st) n \<or> (n = i \<and> mapFind (AddPacketID pid (Suc i)) (fst st))"
  by (auto simp: ackBitStep_def bit_simps)

lemma ackBitFold_fst:
  "fst (fold (ackBitStep pid) js st) =
     filter (\<lambda>e. fst e \<notin> (\<lambda>j. AddPacketID pid (Suc j)) ` set js) (fst st)"
proof (induction js arbitrary: st)
  case Nil
  show ?case by simp
next
  case (Cons j js)
  have "fst (fold (ackBitStep pid) (j # js) st) =
      filter (\<lambda>e. fst e \<notin> (\<lambda>j. AddPacketID pid (Suc j)) ` set js)
        (mapErase (AddPacketID pid (Suc j)) (fst st))"
    by (simp add: Cons ackBitStep_fst)
  also have "\<dots> = filter (\<lambda>e. fst e \<notin> (\<lambda>j. AddPacketID pid (Suc j)) ` set (j # js)) (fst st)"
    unfolding mapErase_def filter_filter by (rule filter_cong) auto
  finally show ?case .
qed

lemma ackBitFold_snd:
  assumes "distinct js" and "\<forall>j\<in>set js. j < 32" and "n < 32"
  shows "bit (snd (fold (ackBitStep pid) js st)) n \<longleftrightarrow>
     bit (snd st) n \<or> (n \<in> set js \<and> mapFind (AddPacketID pid (Suc n)) (fst st))"
  using assms
proof (induction js arbitrary: st)
  case Nil
  show ?case by simp
next
  case (Cons j js)
  have j: "j < 32" "j \<notin> set js"
    using Cons.prems by simp_all
  have ne: "AddPacketID pid (Suc n) \<noteq> AddPacketID pid (Suc j)" if "n \<in> set js"
  proof
    assume "AddPacketID pid (Suc n) = AddPacketID pid (Suc j)"
    then have "n = j"
      using Cons.prems(3) j(1) by (rule AddPacketID_inj)
    with that j(2) show False by simp
  qed
  have find': "mapFind (AddPacketID pid (Suc n)) (fst (ackBitStep pid j st)) \<longleftrightarrow>
      mapFind (AddPacketID pid (Suc n)) (fst st)" if "n \<in> set js"
    using ne [OF that] by (simp add: ackBitStep_fst mapFind_mapErase)
  have step: "bit (snd (ackBitStep pid j st)) n \<longleftrightarrow>
      bit (snd st) n \<or> (n = j \<and> mapFind (AddPacketID pid (Suc j)) (fst st))"
    using Cons.prems(3) by (rule ackBitStep_snd)
  have "bit (snd (fold (ackBitStep pid) js (ackBitStep pid j st))) n \<longleftrightarrow>
      bit (snd (ackBitStep pid j st)) n
      \<or> (n \<in> set js \<and> mapFind (AddPacketID pid (Suc n)) (fst (ackBitStep pid j st)))"
    using Cons.prems by (intro Cons.IH) simp_all
  also have "\<dots> \<longleftrightarrow> bit (snd st) n
      \<or> (n \<in> set (j # js) \<and> mapFind (AddPacketID pid (Suc n)) (fst st))"
    unfolding step using find' by auto
  finally show ?case by simp
qed

text \<open>
  The packet ids one ack message of SendPacketAckMessage erases from the pending acks
  \<open>trk\<close>, in the order of the loop: the base id and every pending id among the 32 ids
  that follow it.
\<close>

definition erasedByAck :: "packet_id_t \<Rightarrow> (packet_id_t \<times> PacketAckTrack) list \<Rightarrow> packet_id_t list" where
  "erasedByAck pid trk =
     pid # map (\<lambda>i. AddPacketID pid (i + 1))
             (filter (\<lambda>i. mapFind (AddPacketID pid (i + 1)) trk) [0..<32])"

lemma erasedByAck_length: "length (erasedByAck pid trk) \<le> 33"
proof -
  have "length (filter (\<lambda>i. mapFind (AddPacketID pid (i + 1)) trk) [0..<32]) \<le> length [0..<32::nat]"
    by (rule length_filter_le)
  then show ?thesis by (simp add: erasedByAck_def)
qed

lemma fold_ackFreeStep:
  "fold (ackFreeStep env pid sequence) js c =
     fold (FreeOutboundPacketAckTrack env)
       (map (\<lambda>i. AddPacketID pid (Suc i)) (filter (bit sequence) js)) c"
proof -
  have b: "ackFreeStep env pid sequence i c' =
      (if bit sequence i then FreeOutboundPacketAckTrack env (AddPacketID pid (1 + i)) c' else c')"
    for i c'
    unfolding ackFreeStep_def by (simp only: bit_iff_and_push_bit_not_eq_0 [symmetric])
  show ?thesis
    by (induction js arbitrary: c) (simp_all add: b)
qed

lemma ackBitLoop_bits:
  assumes "pid < 2 ^ 22" and "n < 32"
  shows "bit (snd (ackBitLoop pid (mapErase pid trk))) n \<longleftrightarrow> mapFind (AddPacketID pid (Suc n)) trk"
proof -
  have "bit (snd (fold (ackBitStep pid) [0..<32] (mapErase pid trk, 0))) n \<longleftrightarrow>
      bit (snd (mapErase pid trk, 0 :: u32)) n
      \<or> (n \<in> set [0..<32] \<and> mapFind (AddPacketID pid (Suc n)) (fst (mapErase pid trk, 0 :: u32)))"
    using assms(2) by (intro ackBitFold_snd) simp_all
  then show ?thesis
    using assms AddPacketID_neq [of pid n] by (simp add: ackBitLoop_def mapFind_mapErase)
qed

lemma ackPayload_decode:
  assumes "pid < 2 ^ 22"
  shows "length (ackPayload pid sequence) = 7"
    and "(ucast (ackPayload pid sequence ! 0) :: packet_id_t)
           OR push_bit 8 (ucast (ReadU16 (drop (Suc 0) (ackPayload pid sequence)))) = pid"
    and "ReadU32 (drop 3 (ackPayload pid sequence)) = sequence"
proof -
  show "length (ackPayload pid sequence) = 7"
    by (simp add: ackPayload_def AddU16_def AddU32_def)
  have "drop (Suc 0) (ackPayload pid sequence) = AddU16 (ucast (drop_bit 8 pid)) @ AddU32 sequence"
    by (simp add: ackPayload_def)
  then have "ReadU16 (drop (Suc 0) (ackPayload pid sequence)) = ucast (drop_bit 8 pid)"
    by (simp only: ReadU16_AddU16)
  moreover have "ackPayload pid sequence ! 0 = ucast (pid AND 0xFF)"
    by (simp add: ackPayload_def)
  ultimately show "(ucast (ackPayload pid sequence ! 0) :: packet_id_t)
           OR push_bit 8 (ucast (ReadU16 (drop (Suc 0) (ackPayload pid sequence)))) = pid"
    using packetID_low_high [OF assms] by simp
  have "drop 3 (ackPayload pid sequence) = AddU32 sequence @ []"
    by (simp add: ackPayload_def AddU16_def)
  then show "ReadU32 (drop 3 (ackPayload pid sequence)) = sequence"
    by (simp only: ReadU32_AddU32)
qed

lemma HandlePacketAckMessage_ackPayload:
  assumes "pid < 2 ^ 22"
  shows "HandlePacketAckMessage env (ackPayload pid (snd (ackBitLoop pid (mapErase pid trk)))) s =
           fold (FreeOutboundPacketAckTrack env) (erasedByAck pid trk) s"
proof -
  let ?seq = "snd (ackBitLoop pid (mapErase pid trk))"
  have "filter (bit ?seq) [0..<32] = filter (\<lambda>i. mapFind (AddPacketID pid (Suc i)) trk) [0..<32]"
    by (rule filter_cong) (simp_all add: ackBitLoop_bits [OF assms])
  then show ?thesis
    by (simp add: HandlePacketAckMessage_def Let_def ackPayload_decode [OF assms] fold_ackFreeStep
        erasedByAck_def)
qed

lemma ackBitLoop_keys:
  assumes "mapFind pid trk"
  shows "set (erasedByAck pid trk) =
           fst ` set trk - fst ` set (fst (ackBitLoop pid (mapErase pid trk)))"
proof -
  let ?ids = "(\<lambda>j. AddPacketID pid (Suc j)) ` {0..<32}"
  have k: "fst ` set (fst (ackBitLoop pid (mapErase pid trk))) =
      {k \<in> fst ` set trk. k \<noteq> pid \<and> k \<notin> ?ids}"
    by (force simp: ackBitLoop_def ackBitFold_fst mapErase_def)
  have e: "set (erasedByAck pid trk) = insert pid {k \<in> ?ids. k \<in> fst ` set trk}"
    by (auto simp: erasedByAck_def mapFind_def)
  show ?thesis
    unfolding k e using assms by (auto simp: mapFind_def)
qed

section \<open>What one ack message holds\<close>

lemma StartNewMessage_store [simp]:
  "fst (StartNewMessage ident n c) = poolNext c"
  "poolNext (snd (StartNewMessage ident n c)) = Suc (poolNext c)"
  "q \<noteq> poolNext c \<Longrightarrow> messages (snd (StartNewMessage ident n c)) q = messages c q"
  "msgId (messages (snd (StartNewMessage ident n c)) (poolNext c)) = ident"
  "dataSize (messages (snd (StartNewMessage ident n c)) (poolNext c)) = n"
  "obsolete (messages (snd (StartNewMessage ident n c)) (poolNext c)) = False"
  by (simp_all add: StartNewMessage_def AllocateNewMessage_def updMsg_def)

lemma updMsg_store [simp]:
  "messages (updMsg p f c) q = (if q = p then f (messages c p) else messages c q)"
  "poolNext (updMsg p f c) = poolNext c"
  by (simp_all add: updMsg_def)

lemma AddMessage_store [simp]:
  "messages (AddMessage t p c) = messages c" "poolNext (AddMessage t p c) = poolNext c"
  by (simp_all add: AddMessage_def)

lemma splitFragment_old:
  assumes "q < poolNext c"
  shows "messages (splitFragment i src t b idx n c) q = messages c q"
    and "poolNext c \<le> poolNext (splitFragment i src t b idx n c)"
  using assms by (simp_all add: splitFragment_def Let_def split_beta)

lemma splitLoop_old:
  "q < poolNext c \<Longrightarrow> messages (splitLoop i m src t b idx c) q = messages c q"
proof (induction i m src t b idx c rule: splitLoop.induct)
  case (1 i m src t b idx c)
  show ?case
  proof (cases "b < dataSize src \<and> 0 < m")
    case True
    have "q < poolNext (splitFragment i src t b idx (min m (dataSize src - b)) c)"
      using splitFragment_old(2) [OF "1.prems", of i src t b idx "min m (dataSize src - b)"]
        "1.prems" by simp
    from "1.IH" [OF True this] True show ?thesis
      by (subst splitLoop.simps) (simp add: splitFragment_old(1) [OF "1.prems"])
  next
    case False
    then show ?thesis
      by (subst splitLoop.simps) auto
  qed
qed

lemma FreeMessage_store [simp]:
  "messages (FreeMessage p c) = messages c" "poolNext (FreeMessage p c) = poolNext c"
  by (simp_all add: FreeMessage_def)

lemma signalMsgsOut_store [simp]:
  "messages (signalMsgsOut c) = messages c" "poolNext (signalMsgsOut c) = poolNext c"
  by (simp_all add: signalMsgsOut_def)

lemma setDataSize_store [simp]:
  "data (messages (setDataSize p n c) q) = data (messages c q)"
  "msgId (messages (setDataSize p n c) q) = msgId (messages c q)"
  "poolNext (setDataSize p n c) = poolNext c"
  by (simp_all add: setDataSize_def split: option.splits)

lemma queueUnsplitMessage_store [simp]:
  "data (messages (queueUnsplitMessage p i c) q) = data (messages c q)"
  "msgId (messages (queueUnsplitMessage p i c) q) = msgId (messages c q)"
  by (simp_all add: queueUnsplitMessage_def Let_def)

lemma SplitAndQueueMessage_old:
  assumes "SplitAndQueueMessage p i k c = Some c'" and "q < poolNext c"
  shows "messages c' q = messages c q"
proof -
  let ?c1 = "snd (AllocateNewFragmentedTransfer c)"
  let ?t = "fst (AllocateNewFragmentedTransfer c)"
  let ?c2 = "?c1\<lparr> transfers := (transfers ?c1)(?t := (transfers ?c1 ?t)
      \<lparr> totalNumFragments := (dataSize (messages c p) + k - 1) div k \<rparr>) \<rparr>"
  have c': "c' = FreeMessage p (signalMsgsOut (splitLoop i k (messages c p) ?t 0 0 ?c2))"
    using assms(1) by (simp add: SplitAndQueueMessage_def Let_def split_beta split: if_splits)
  have "q < poolNext ?c2" "messages ?c2 q = messages c q"
    using assms(2) by (simp_all add: AllocateNewFragmentedTransfer_def)
  then show ?thesis
    unfolding c' by (simp add: splitLoop_old)
qed

lemma EndAndQueueMessage_cases:
  obtains (free) "EndAndQueueMessage env p n i c = Some (FreeMessage p c)"
  | (split) "EndAndQueueMessage env p n i c =
       SplitAndQueueMessage p i ((MaxSendSize env div 4 + 2 ^ 64 - 32) mod 2 ^ 64) (setDataSize p n c)"
  | (plain) "EndAndQueueMessage env p n i c = Some (queueUnsplitMessage p i (setDataSize p n c))"
proof (cases "obsolete (messages c p) \<or> \<not> socketExists env \<or> connectionState c = ConnectionClosed
           \<or> \<not> IsWriteOpen env c")
  case True
  then have "EndAndQueueMessage env p n i c = Some (FreeMessage p c)"
    unfolding EndAndQueueMessage_def by (rule if_P)
  then show ?thesis by (rule free)
next
  case False
  note discard = False
  show ?thesis
  proof (cases "dataSize (messages (setDataSize p n c) p) + 32 > MaxSendSize env")
    case True
    have "EndAndQueueMessage env p n i c =
       SplitAndQueueMessage p i ((MaxSendSize env div 4 + 2 ^ 64 - 32) mod 2 ^ 64) (setDataSize p n c)"
      unfolding EndAndQueueMessage_def by (simp only: discard True if_False if_True)
    then show ?thesis by (rule split)
  next
    case False
    have "EndAndQueueMessage env p n i c = Some (queueUnsplitMessage p i (setDataSize p n c))"
      unfolding EndAndQueueMessage_def by (simp only: discard False if_False)
    then show ?thesis by (rule plain)
  qed
qed

lemma EndAndQueueMessage_old:
  assumes "EndAndQueueMessage env p n i c = Some c'" and "p < poolNext c"
  shows "data (messages c' p) = data (messages c p)"
    and "msgId (messages c' p) = msgId (messages c p)"
proof -
  have "data (messages c' p) = data (messages c p) \<and> msgId (messages c' p) = msgId (messages c p)"
  proof (cases rule: EndAndQueueMessage_cases [of env p n i c])
    case free
    with assms(1) show ?thesis by auto
  next
    case split
    with assms have "messages c' p = messages (setDataSize p n c) p"
      by (intro SplitAndQueueMessage_old) simp_all
    then show ?thesis by simp
  next
    case plain
    with assms(1) show ?thesis by auto
  qed
  then show "data (messages c' p) = data (messages c p)"
    and "msgId (messages c' p) = msgId (messages c p)"
    by simp_all
qed

lemma EndAndQueueMessage_small:
  assumes "n \<le> 96"
  shows "\<exists>c'. EndAndQueueMessage env p (Some n) i c = Some c'"
proof (cases "n + 32 > MaxSendSize env")
  case True
  then have "MaxSendSize env div 4 < 32"
    using assms by simp
  then have "(MaxSendSize env div 4 + 2 ^ 64 - 32) mod 2 ^ 64 \<noteq> (0::nat)"
    by simp
  then show ?thesis
    by (simp add: EndAndQueueMessage_def SplitAndQueueMessage_def Let_def split_beta)
next
  case False
  then show ?thesis
    by (simp add: EndAndQueueMessage_def setDataSize_def)
qed

lemma sendOneAck_Some: "\<exists>c'. sendOneAck env c = Some c'"
  using EndAndQueueMessage_small [of 7]
  by (simp add: sendOneAck_def Let_def split_beta)

lemma sendOneAck_message:
  assumes "sendOneAck env c = Some c'"
  shows "inboundPacketAckTrack c' =
           fst (ackBitLoop (fst (hd (inboundPacketAckTrack c)))
                  (mapErase (fst (hd (inboundPacketAckTrack c))) (inboundPacketAckTrack c)))"
    and "data (messages c' (poolNext c)) =
           ackPayload (fst (hd (inboundPacketAckTrack c)))
             (snd (ackBitLoop (fst (hd (inboundPacketAckTrack c)))
                  (mapErase (fst (hd (inboundPacketAckTrack c))) (inboundPacketAckTrack c))))"
    and "msgId (messages c' (poolNext c)) = MsgIdPacketAck env"
proof -
  let ?pid = "fst (hd (inboundPacketAckTrack c))"
  let ?r = "ackBitLoop ?pid (mapErase ?pid (inboundPacketAckTrack c))"
  let ?c1 = "c\<lparr> inboundPacketAckTrack := fst ?r \<rparr>"
  let ?c2 = "snd (StartNewMessage (MsgIdPacketAck env) 7 ?c1)"
  let ?c3 = "updMsg (poolNext c) (\<lambda>m. m\<lparr> data := ackPayload ?pid (snd ?r),
                priority := cMaxPriority env - 1 \<rparr>) ?c2"
  have p: "fst (StartNewMessage (MsgIdPacketAck env) 7 ?c1) = poolNext c"
    by simp
  have e: "EndAndQueueMessage env (poolNext c) (Some 7) True ?c3 = Some c'"
    using assms p by (simp add: sendOneAck_def Let_def split_beta)
  have n: "poolNext c < poolNext ?c3"
    by simp
  show "inboundPacketAckTrack c' = fst ?r"
    using EndAndQueueMessage_inboundPacketAckTrack [OF e] by simp
  show "data (messages c' (poolNext c)) = ackPayload ?pid (snd ?r)"
    using EndAndQueueMessage_old(1) [OF e n] by simp
  have "msgId (messages ?c2 (poolNext ?c1)) = MsgIdPacketAck env"
    by (rule StartNewMessage_store(4))
  then show "msgId (messages c' (poolNext c)) = MsgIdPacketAck env"
    using EndAndQueueMessage_old(2) [OF e n] by simp
qed

lemma hd_mapFind: "trk \<noteq> [] \<Longrightarrow> mapFind (fst (hd trk)) trk"
  by (cases trk) (simp_all add: mapFind_def)

text \<open>What FreeOutboundPacketAckTrack does to the tracks and to the pool.\<close>

lemma RemoveMessage_tracks [simp]:
  "outboundPacketAckTrack (RemoveMessage t m c) = outboundPacketAckTrack c"
  "poolFreed (RemoveMessage t m c) = poolFreed c"
  by (simp_all add: RemoveMessage_def Let_def)

lemma freeTrackMessage_tracks [simp]:
  "outboundPacketAckTrack (freeTrackMessage m c) = outboundPacketAckTrack c"
  "poolFreed (freeTrackMessage m c) = m # poolFreed c"
  by (simp_all add: freeTrackMessage_def FreeMessage_def split: option.splits)

lemma fold_freeTrackMessage_tracks [simp]:
  "outboundPacketAckTrack (fold freeTrackMessage ms c) = outboundPacketAckTrack c"
  "poolFreed (fold freeTrackMessage ms c) = rev ms @ poolFreed c"
  by (induction ms arbitrary: c) simp_all

lemma UpdateRTOCounterOnPacketAck_tracks [simp]:
  "outboundPacketAckTrack (UpdateRTOCounterOnPacketAck r c) = outboundPacketAckTrack c"
  "poolFreed (UpdateRTOCounterOnPacketAck r c) = poolFreed c"
  by (simp_all add: UpdateRTOCounterOnPacketAck_def Let_def)

lemma filter_absent:
  "find (\<lambda>t. packetID t = pid) ts = None \<Longrightarrow> filter (\<lambda>t. packetID t \<noteq> pid) ts = ts"
  by (induction ts) (auto split: if_splits)

lemma FreeOutboundPacketAckTrack_tracks:
  "outboundPacketAckTrack (FreeOutboundPacketAckTrack env pid c) =
     filter (\<lambda>t. packetID t \<noteq> pid) (outboundPacketAckTrack c)"
proof (cases "find (\<lambda>t. packetID t = pid) (outboundPacketAckTrack c)")
  case None
  then show ?thesis
    by (simp add: FreeOutboundPacketAckTrack_def filter_absent)
next
  case (Some track)
  then show ?thesis
    by (simp add: FreeOutboundPacketAckTrack_def Let_def)
qed

lemma FreeOutboundPacketAckTrack_freed:
  "poolFreed (FreeOutboundPacketAckTrack env pid c) =
     (case find (\<lambda>t. packetID t = pid) (outboundPacketAckTrack c) of
        None \<Rightarrow> poolFreed c
      | Some track \<Rightarrow> rev (trackMessages track) @ poolFreed c)"
  by (simp add: FreeOutboundPacketAckTrack_def Let_def split: option.splits)

lemma find_distinct_key:
  assumes "distinct (map packetID ts)"
  shows "filter (\<lambda>t. packetID t = pid) ts =
     (case find (\<lambda>t. packetID t = pid) ts of None \<Rightarrow> [] | Some t \<Rightarrow> [t])"
  using assms
proof (induction ts)
  case Nil
  show ?case by simp
next
  case (Cons t ts)
  show ?case
  proof (cases "packetID t = pid")
    case True
    then have "pid \<notin> packetID ` set ts"
      using Cons.prems by auto
    then have "filter (\<lambda>t. packetID t = pid) ts = []"
      by (auto simp: filter_empty_conv)
    with True show ?thesis by simp
  next
    case False
    with Cons show ?thesis by simp
  qed
qed

lemma FreeOutboundPacketAckTrack_freed_set:
  assumes "distinct (map packetID (outboundPacketAckTrack c))"
  shows "set (poolFreed (FreeOutboundPacketAckTrack env pid c)) =
     set (poolFreed c)
     \<union> set (concat (map trackMessages (filter (\<lambda>t. packetID t = pid) (outboundPacketAckTrack c))))"
  by (auto simp: FreeOutboundPacketAckTrack_freed find_distinct_key [OF assms] split: option.splits)

lemma fold_FreeOutboundPacketAckTrack_tracks:
  "outboundPacketAckTrack (fold (FreeOutboundPacketAckTrack env) ids c) =
     filter (\<lambda>t. packetID t \<notin> set ids) (outboundPacketAckTrack c)"
proof (induction ids arbitrary: c)
  case Nil
  show ?case by simp
next
  case (Cons i ids)
  have "filter (\<lambda>t. packetID t \<notin> set ids) (filter (\<lambda>t. packetID t \<noteq> i) ts)
      = filter (\<lambda>t. packetID t \<notin> set (i # ids)) ts" for ts :: "PacketAckTrack list"
    by (induction ts) auto
  then show ?case
    by (simp add: Cons.IH FreeOutboundPacketAckTrack_tracks)
qed

lemma fold_FreeOutboundPacketAckTrack_freed:
  assumes "distinct (map packetID (outboundPacketAckTrack c))"
  shows "set (poolFreed (fold (FreeOutboundPacketAckTrack env) ids c)) =
     set (poolFreed c)
     \<union> set (concat (map trackMessages
                (filter (\<lambda>t. packetID t \<in> set ids) (outboundPacketAckTrack c))))"
  using assms
proof (induction ids arbitrary: c)
  case Nil
  show ?case by simp
next
  case (Cons i ids)
  let ?c1 = "FreeOutboundPacketAckTrack env i c"
  have t: "outboundPacketAckTrack ?c1 = filter (\<lambda>t. packetID t \<noteq> i) (outboundPacketAckTrack c)"
    by (rule FreeOutboundPacketAckTrack_tracks)
  have d: "distinct (map packetID (outboundPacketAckTrack ?c1))"
    unfolding t using Cons.prems by (rule distinct_map_filter)
  have "set (poolFreed (fold (FreeOutboundPacketAckTrack env) ids ?c1)) =
     set (poolFreed ?c1)
     \<union> set (concat (map trackMessages
                (filter (\<lambda>t. packetID t \<in> set ids) (outboundPacketAckTrack ?c1))))"
    using d by (rule Cons.IH)
  then show ?case
    unfolding t by (auto simp: FreeOutboundPacketAckTrack_freed_set [OF Cons.prems])
qed

text \<open>
  Claim C5. For every pending-ack set and its base packet id (a 22-bit id, as every id
  read from a datagram header is), the ack message that SendPacketAckMessage builds has a
  payload of 7 bytes: the base id in the first three bytes and a bitfield whose bit i says
  that the id base + i + 1 was pending. The ids erased from the sender's pending set for
  this message are the base id and the ids of the set bits. HandlePacketAckMessage applied
  to the payload on any connection frees exactly these ids: the PacketAckTracks of these
  ids leave outboundPacketAckTrack and all other tracks stay, in their order, and (the
  tracks being keyed by packet id) the messages given back to the pool are those of the
  tracks that left.
\<close>

theorem packet_ack_round_trip:
  assumes "inboundPacketAckTrack c \<noteq> []"
    and "fst (hd (inboundPacketAckTrack c)) < 2 ^ 22"
    and "sendOneAck env c = Some c'"
  shows "let pid = fst (hd (inboundPacketAckTrack c));
             payload = data (messages c' (poolNext c));
             erased = erasedByAck pid (inboundPacketAckTrack c);
             s' = HandlePacketAckMessage env' payload s
         in length payload = 7
          \<and> ucast (payload ! 0) OR push_bit 8 (ucast (ReadU16 (drop 1 payload))) = pid
          \<and> (\<forall>i<32. bit (ReadU32 (drop 3 payload)) i
                \<longleftrightarrow> mapFind (AddPacketID pid (i + 1)) (inboundPacketAckTrack c))
          \<and> set erased = fst ` set (inboundPacketAckTrack c) - fst ` set (inboundPacketAckTrack c')
          \<and> s' = fold (FreeOutboundPacketAckTrack env') erased s
          \<and> outboundPacketAckTrack s' =
              filter (\<lambda>t. packetID t \<notin> set erased) (outboundPacketAckTrack s)
          \<and> (distinct (map packetID (outboundPacketAckTrack s)) \<longrightarrow>
               set (poolFreed s') = set (poolFreed s)
                 \<union> set (concat (map trackMessages
                      (filter (\<lambda>t. packetID t \<in> set erased) (outboundPacketAckTrack s)))))"
proof -
  let ?pid = "fst (hd (inboundPacketAckTrack c))"
  let ?seq = "snd (ackBitLoop ?pid (mapErase ?pid (inboundPacketAckTrack c)))"
  let ?E = "erasedByAck ?pid (inboundPacketAckTrack c)"
  have p: "data (messages c' (poolNext c)) = ackPayload ?pid ?seq"
    using assms(3) by (rule sendOneAck_message(2))
  have h: "HandlePacketAckMessage env' (ackPayload ?pid ?seq) s
      = fold (FreeOutboundPacketAckTrack env') ?E s"
    using assms(2) by (rule HandlePacketAckMessage_ackPayload)
  have e: "set ?E = fst ` set (inboundPacketAckTrack c) - fst ` set (inboundPacketAckTrack c')"
    using assms sendOneAck_message(1) [OF assms(3)] by (simp add: ackBitLoop_keys hd_mapFind)
  have b: "bit ?seq i \<longleftrightarrow> mapFind (AddPacketID ?pid (i + 1)) (inboundPacketAckTrack c)"
    if "i < 32" for i
    using ackBitLoop_bits [OF assms(2) that] by simp
  have f: "distinct (map packetID (outboundPacketAckTrack s)) \<longrightarrow>
      set (poolFreed (fold (FreeOutboundPacketAckTrack env') ?E s)) = set (poolFreed s)
        \<union> set (concat (map trackMessages
              (filter (\<lambda>t. packetID t \<in> set ?E) (outboundPacketAckTrack s))))"
    using fold_FreeOutboundPacketAckTrack_freed by blast
  show ?thesis
    unfolding Let_def p h
    using e f b
    by (simp add: ackPayload_decode [OF assms(2)] fold_FreeOutboundPacketAckTrack_tracks)
qed

definition ackSample :: connection where
  "ackSample = (UDPMessageConnection sampleEnvironment ConnectionOK)
     \<lparr> inboundPacketAckTrack :=
         mapIndex 9 (\<lambda>t. t\<lparr> packetID := 9, sentTick := 0 \<rparr>)
           (mapIndex 6 (\<lambda>t. t\<lparr> packetID := 6, sentTick := 0 \<rparr>)
              (mapIndex 5 (\<lambda>t. t\<lparr> packetID := 5, sentTick := 0 \<rparr>) [])) \<rparr>"

lemma ackSample_keys: "map fst (inboundPacketAckTrack ackSample) = [5, 6, 9]"
  by (simp add: ackSample_def)

lemma ackSample_erased: "erasedByAck 5 (inboundPacketAckTrack ackSample) = [5, 6, 9]"
  by code_simp

definition ackedSample :: connection where
  "ackedSample = (UDPMessageConnection sampleEnvironment ConnectionOK)
     \<lparr> poolNext := 5,
       outboundPacketAckTrack :=
         [defaultTrack\<lparr> packetID := 5, trackMessages := [0] \<rparr>,
          defaultTrack\<lparr> packetID := 6, trackMessages := [1, 2] \<rparr>,
          defaultTrack\<lparr> packetID := 7, trackMessages := [3] \<rparr>,
          defaultTrack\<lparr> packetID := 9, trackMessages := [4] \<rparr>] \<rparr>"

lemma ackedSample_fields:
  "map packetID (outboundPacketAckTrack ackedSample) = [5, 6, 7, 9]"
  "map trackMessages (outboundPacketAckTrack ackedSample) = [[0], [1, 2], [3], [4]]"
  "poolFreed ackedSample = []"
  by (simp_all add: ackedSample_def UDPMessageConnection_def)

theorem packet_ack_round_trip_witness:
  "HandlePacketAckMessage sampleEnvironment
      (data (messages (the (sendOneAck sampleEnvironment ackSample)) (poolNext ackSample))) ackedSample =
     fold (FreeOutboundPacketAckTrack sampleEnvironment) [5, 6, 9] ackedSample
   \<and> {5, 6, 9} = fst ` set (inboundPacketAckTrack ackSample)
        - fst ` set (inboundPacketAckTrack (the (sendOneAck sampleEnvironment ackSample)))
   \<and> map fst (inboundPacketAckTrack ackSample) = [5, 6, 9]
   \<and> map packetID (outboundPacketAckTrack ackedSample) = [5, 6, 7, 9]
   \<and> map packetID (outboundPacketAckTrack (HandlePacketAckMessage sampleEnvironment
        (data (messages (the (sendOneAck sampleEnvironment ackSample)) (poolNext ackSample)))
        ackedSample)) = [7]
   \<and> set (poolFreed (HandlePacketAckMessage sampleEnvironment
        (data (messages (the (sendOneAck sampleEnvironment ackSample)) (poolNext ackSample)))
        ackedSample)) = {0, 1, 2, 4}
   \<and> length (data (messages (the (sendOneAck sampleEnvironment ackSample)) (poolNext ackSample))) = 7"
proof -
  obtain c' where c': "sendOneAck sampleEnvironment ackSample = Some c'"
    using sendOneAck_Some by blast
  have h: "fst (hd (inboundPacketAckTrack ackSample)) = 5" "inboundPacketAckTrack ackSample \<noteq> []"
    by (simp_all add: ackSample_def)
  have "fst (hd (inboundPacketAckTrack ackSample)) < 2 ^ 22"
    unfolding h by simp
  note r = packet_ack_round_trip [OF h(2) this c', of sampleEnvironment ackedSample,
      unfolded Let_def h ackSample_erased]
  have t: "outboundPacketAckTrack ackedSample =
         [defaultTrack\<lparr> packetID := 5, trackMessages := [0] \<rparr>,
          defaultTrack\<lparr> packetID := 6, trackMessages := [1, 2] \<rparr>,
          defaultTrack\<lparr> packetID := 7, trackMessages := [3] \<rparr>,
          defaultTrack\<lparr> packetID := 9, trackMessages := [4] \<rparr>]"
    by (simp add: ackedSample_def)
  from r show ?thesis
    by (auto simp: c' h ackSample_keys ackedSample_fields t)
qed

section \<open>When packet acks are sent\<close>

lemma SendPacketAckMessage_total: "\<exists>c'. SendPacketAckMessage env c = Some c'"
proof (induction env c rule: SendPacketAckMessage.induct)
  case (1 env c)
  show ?case
  proof (cases "inboundPacketAckTrack c \<noteq> []")
    case True
    obtain c1 where c1: "sendOneAck env c = Some c1"
      using sendOneAck_Some by blast
    from "1.IH" [OF True c1] True c1 show ?thesis
      by (subst SendPacketAckMessage.simps) simp
  next
    case False
    then show ?thesis
      by (subst SendPacketAckMessage.simps) simp
  qed
qed

lemma connectionState_frame [simp]:
  "connectionState (snd (StartNewMessage ident n c)) = connectionState c"
  "connectionState (updMsg p f c) = connectionState c"
  "connectionState (setDataSize p k c) = connectionState c"
  by (simp_all add: StartNewMessage_def AllocateNewMessage_def updMsg_def setDataSize_def
      split: option.splits)

lemma queueUnsplitMessage_internal: "p \<in> set (outboundQueue (queueUnsplitMessage p True c))"
  by (simp add: queueUnsplitMessage_def Let_def signalMsgsOut_def)

lemma sendOneAck_queued:
  assumes "sendOneAck env c = Some c1" and "IsWriteOpen env c" and "39 \<le> MaxSendSize env"
  shows "poolNext c \<in> set (outboundQueue c1)"
proof -
  let ?pid = "fst (hd (inboundPacketAckTrack c))"
  let ?r = "ackBitLoop ?pid (mapErase ?pid (inboundPacketAckTrack c))"
  let ?c1 = "c\<lparr> inboundPacketAckTrack := fst ?r \<rparr>"
  let ?c2 = "snd (StartNewMessage (MsgIdPacketAck env) 7 ?c1)"
  let ?c3 = "updMsg (poolNext c) (\<lambda>m. m\<lparr> data := ackPayload ?pid (snd ?r),
                priority := cMaxPriority env - 1 \<rparr>) ?c2"
  have e: "EndAndQueueMessage env (poolNext c) (Some 7) True ?c3 = Some c1"
    using assms(1) by (simp add: sendOneAck_def Let_def split_beta)
  have o: "obsolete (messages ?c2 (poolNext ?c1)) = False"
    by (rule StartNewMessage_store(6))
  have w: "IsWriteOpen env ?c3" "socketExists env" "connectionState ?c3 \<noteq> ConnectionClosed"
    using assms(2) by (simp_all add: IsWriteOpen_def)
  have d: "dataSize (messages (setDataSize (poolNext c) (Some 7) ?c3) (poolNext c)) = 7"
    by (simp add: setDataSize_def)
  have "EndAndQueueMessage env (poolNext c) (Some 7) True ?c3 =
      Some (queueUnsplitMessage (poolNext c) True (setDataSize (poolNext c) (Some 7) ?c3))"
    unfolding EndAndQueueMessage_def using o w assms(3) by (simp add: d)
  with e show ?thesis
    using queueUnsplitMessage_internal by auto
qed

lemma PerformPacketAckSends_idle:
  assumes "inboundPacketAckTrack c = []
     \<or> (TimespanToMillisecondsF env (sentTick (snd (hd (inboundPacketAckTrack c)))) (now env)
           < maxAckDelay \<and> length (inboundPacketAckTrack c) < 33)"
  shows "PerformPacketAckSends env c = Some c"
  using assms by (subst PerformPacketAckSends.simps) auto

lemma PerformPacketAckSends_flush:
  assumes "inboundPacketAckTrack c \<noteq> []"
    and "maxAckDelay \<le> TimespanToMillisecondsF env (sentTick (snd (hd (inboundPacketAckTrack c)))) (now env)
       \<or> 33 \<le> length (inboundPacketAckTrack c)"
    and "sendOneAck env c = Some c1" and "SendPacketAckMessage env c1 = Some c'"
  shows "PerformPacketAckSends env c = Some c'" and "inboundPacketAckTrack c' = []"
proof -
  have s: "SendPacketAckMessage env c = Some c'"
    using assms(1,3,4) by (subst SendPacketAckMessage.simps) simp
  show e: "inboundPacketAckTrack c' = []"
    using assms(4) by (rule SendPacketAckMessage_empties)
  have "PerformPacketAckSends env c' = Some c'"
    using e by (intro PerformPacketAckSends_idle) simp
  then show "PerformPacketAckSends env c = Some c'"
    using assms(1,2) s by (subst PerformPacketAckSends.simps) auto
qed

text \<open>
  Queueing an ack message keeps what is in the send queue, and keeps the id and the data of
  the messages the pool handed out before.
\<close>

lemma outboundQueue_frame [simp]:
  "outboundQueue (snd (StartNewMessage ident n c)) = outboundQueue c"
  "outboundQueue (updMsg p f c) = outboundQueue c"
  "outboundQueue (AddMessage t p c) = outboundQueue c"
  "outboundQueue (FreeMessage p c) = outboundQueue c"
  "outboundQueue (signalMsgsOut c) = outboundQueue c"
  "outboundQueue (setDataSize p k c) = outboundQueue c"
  by (simp_all add: StartNewMessage_def AllocateNewMessage_def updMsg_def AddMessage_def
      FreeMessage_def signalMsgsOut_def setDataSize_def split: option.splits)

lemma splitFragment_grows:
  "set (outboundQueue c) \<subseteq> set (outboundQueue (splitFragment i src t b idx n c))"
  "poolNext c \<le> poolNext (splitFragment i src t b idx n c)"
  by (auto simp: splitFragment_def Let_def split_beta)

lemma splitLoop_grows:
  "set (outboundQueue c) \<subseteq> set (outboundQueue (splitLoop i m src t b idx c))
   \<and> poolNext c \<le> poolNext (splitLoop i m src t b idx c)"
proof (induction i m src t b idx c rule: splitLoop.induct)
  case (1 i m src t b idx c)
  show ?case
  proof (cases "b < dataSize src \<and> 0 < m")
    case True
    let ?c1 = "splitFragment i src t b idx (min m (dataSize src - b)) c"
    have "splitLoop i m src t b idx c =
        splitLoop i m src t (b + min m (dataSize src - b)) (idx + 1) ?c1"
      using True by (subst splitLoop.simps) simp
    moreover have "set (outboundQueue ?c1) \<subseteq> set (outboundQueue
          (splitLoop i m src t (b + min m (dataSize src - b)) (idx + 1) ?c1))
        \<and> poolNext ?c1 \<le> poolNext (splitLoop i m src t (b + min m (dataSize src - b)) (idx + 1) ?c1)"
      using True by (intro "1.IH") simp_all
    ultimately show ?thesis
      using splitFragment_grows [of c i src t b idx "min m (dataSize src - b)"] by auto
  next
    case False
    then have "splitLoop i m src t b idx c = c"
      by (subst splitLoop.simps) auto
    then show ?thesis by simp
  qed
qed

lemma SplitAndQueueMessage_grows:
  assumes "SplitAndQueueMessage p i k c = Some c'"
  shows "set (outboundQueue c) \<subseteq> set (outboundQueue c')" and "poolNext c \<le> poolNext c'"
proof -
  let ?c1 = "snd (AllocateNewFragmentedTransfer c)"
  let ?t = "fst (AllocateNewFragmentedTransfer c)"
  let ?c2 = "?c1\<lparr> transfers := (transfers ?c1)(?t := (transfers ?c1 ?t)
      \<lparr> totalNumFragments := (dataSize (messages c p) + k - 1) div k \<rparr>) \<rparr>"
  have c': "c' = FreeMessage p (signalMsgsOut (splitLoop i k (messages c p) ?t 0 0 ?c2))"
    using assms(1) by (simp add: SplitAndQueueMessage_def Let_def split_beta split: if_splits)
  have "outboundQueue ?c2 = outboundQueue c" "poolNext ?c2 = poolNext c"
    by (simp_all add: AllocateNewFragmentedTransfer_def)
  then show "set (outboundQueue c) \<subseteq> set (outboundQueue c')" and "poolNext c \<le> poolNext c'"
    unfolding c' using splitLoop_grows [of ?c2 i k "messages c p" ?t 0 0] by simp_all
qed

lemma queueUnsplitMessage_grows:
  "set (outboundQueue c) \<subseteq> set (outboundQueue (queueUnsplitMessage p i c))"
  "poolNext (queueUnsplitMessage p i c) = poolNext c"
  by (auto simp: queueUnsplitMessage_def Let_def signalMsgsOut_def FreeMessage_def)

lemma EndAndQueueMessage_grows:
  assumes "EndAndQueueMessage env p n i c = Some c'"
  shows "set (outboundQueue c) \<subseteq> set (outboundQueue c')" and "poolNext c \<le> poolNext c'"
proof -
  have "set (outboundQueue c) \<subseteq> set (outboundQueue c') \<and> poolNext c \<le> poolNext c'"
  proof (cases rule: EndAndQueueMessage_cases [of env p n i c])
    case free
    with assms show ?thesis by auto
  next
    case split
    with assms have s: "SplitAndQueueMessage p i ((MaxSendSize env div 4 + 2 ^ 64 - 32) mod 2 ^ 64)
        (setDataSize p n c) = Some c'"
      by simp
    from SplitAndQueueMessage_grows [OF s] show ?thesis by simp
  next
    case plain
    with assms have "c' = queueUnsplitMessage p i (setDataSize p n c)"
      by simp
    then show ?thesis
      using queueUnsplitMessage_grows(1) [of "setDataSize p n c" p i]
        queueUnsplitMessage_grows(2) [of p i "setDataSize p n c"] by simp
  qed
  then show "set (outboundQueue c) \<subseteq> set (outboundQueue c')" and "poolNext c \<le> poolNext c'"
    by simp_all
qed

lemma EndAndQueueMessage_keeps:
  assumes "EndAndQueueMessage env p n i c = Some c'" and "q < poolNext c"
  shows "data (messages c' q) = data (messages c q)"
    and "msgId (messages c' q) = msgId (messages c q)"
proof -
  have "data (messages c' q) = data (messages c q) \<and> msgId (messages c' q) = msgId (messages c q)"
  proof (cases rule: EndAndQueueMessage_cases [of env p n i c])
    case free
    with assms(1) show ?thesis by auto
  next
    case split
    with assms have "messages c' q = messages (setDataSize p n c) q"
      by (intro SplitAndQueueMessage_old) simp_all
    then show ?thesis by simp
  next
    case plain
    with assms(1) show ?thesis by auto
  qed
  then show "data (messages c' q) = data (messages c q)"
    and "msgId (messages c' q) = msgId (messages c q)"
    by simp_all
qed

lemma sendOneAck_keeps:
  assumes "sendOneAck env c = Some c1"
  shows "poolNext c < poolNext c1"
    and "set (outboundQueue c) \<subseteq> set (outboundQueue c1)"
    and "q < poolNext c \<Longrightarrow> data (messages c1 q) = data (messages c q)"
    and "q < poolNext c \<Longrightarrow> msgId (messages c1 q) = msgId (messages c q)"
proof -
  let ?pid = "fst (hd (inboundPacketAckTrack c))"
  let ?r = "ackBitLoop ?pid (mapErase ?pid (inboundPacketAckTrack c))"
  let ?c1 = "c\<lparr> inboundPacketAckTrack := fst ?r \<rparr>"
  let ?c2 = "snd (StartNewMessage (MsgIdPacketAck env) 7 ?c1)"
  let ?c3 = "updMsg (poolNext c) (\<lambda>m. m\<lparr> data := ackPayload ?pid (snd ?r),
                priority := cMaxPriority env - 1 \<rparr>) ?c2"
  have e: "EndAndQueueMessage env (poolNext c) (Some 7) True ?c3 = Some c1"
    using assms by (simp add: sendOneAck_def Let_def split_beta)
  have n: "poolNext ?c3 = Suc (poolNext c)" and o: "outboundQueue ?c3 = outboundQueue c"
    by simp_all
  show "poolNext c < poolNext c1"
    using EndAndQueueMessage_grows(2) [OF e] n by simp
  show "set (outboundQueue c) \<subseteq> set (outboundQueue c1)"
    using EndAndQueueMessage_grows(1) [OF e] o by simp
  have m: "messages ?c3 q = messages c q" if "q < poolNext c"
    using that by simp
  show "data (messages c1 q) = data (messages c q)" if "q < poolNext c"
    using EndAndQueueMessage_keeps(1) [OF e, of q] m that n by simp
  show "msgId (messages c1 q) = msgId (messages c q)" if "q < poolNext c"
    using EndAndQueueMessage_keeps(2) [OF e, of q] m that n by simp
qed

lemma SendPacketAckMessage_keeps:
  assumes "SendPacketAckMessage env c = Some c'"
  shows "poolNext c \<le> poolNext c' \<and> set (outboundQueue c) \<subseteq> set (outboundQueue c')
    \<and> (\<forall>q<poolNext c. data (messages c' q) = data (messages c q)
          \<and> msgId (messages c' q) = msgId (messages c q))"
  using assms
proof (induction env c rule: SendPacketAckMessage.induct)
  case (1 env c)
  show ?case
  proof (cases "inboundPacketAckTrack c \<noteq> []")
    case True
    obtain c1 where c1: "sendOneAck env c = Some c1"
      using sendOneAck_Some by blast
    have s: "SendPacketAckMessage env c1 = Some c'"
      using "1.prems" True c1 by (subst (asm) SendPacketAckMessage.simps) simp
    note k = sendOneAck_keeps [OF c1]
    from "1.IH" [OF True c1 s] k(1,2) show ?thesis
      using k(3,4) by (auto simp: subset_iff)
  next
    case False
    then have "c' = c"
      using "1.prems" by (subst (asm) SendPacketAckMessage.simps) simp
    then show ?thesis by simp
  qed
qed

text \<open>
  What PerformPacketAckSends does. It looks at the pending entry that the map of pending
  acks yields first, the one with the smallest packet id. When no entry is pending, or that
  entry is younger than 33 ms and fewer than 33 entries are pending, the connection is left
  as it is: no ack message is produced. Otherwise SendPacketAckMessage builds ack messages
  until no entry is pending; in the connection that PerformPacketAckSends returns, the
  first of them is the message at the address the pool handed out next, it has the id
  MsgIdPacketAck and the payload of the first pending id, nothing has left the send queue,
  and on a connection that is open for writing the message is in the send queue. Every
  ack message that is built acknowledges at most 33 packet ids, and these are exactly the
  ids erased from the pending set for it.
\<close>

theorem PerformPacketAckSends_trigger:
  "(inboundPacketAckTrack c = []
      \<or> (TimespanToMillisecondsF env (sentTick (snd (hd (inboundPacketAckTrack c)))) (now env)
            < maxAckDelay \<and> length (inboundPacketAckTrack c) < 33)
     \<longrightarrow> PerformPacketAckSends env c = Some c)
   \<and> (inboundPacketAckTrack c \<noteq> []
        \<and> (maxAckDelay \<le> TimespanToMillisecondsF env (sentTick (snd (hd (inboundPacketAckTrack c)))) (now env)
             \<or> 33 \<le> length (inboundPacketAckTrack c))
     \<longrightarrow> (\<exists>c1 c'. sendOneAck env c = Some c1 \<and> SendPacketAckMessage env c1 = Some c'
            \<and> PerformPacketAckSends env c = Some c' \<and> inboundPacketAckTrack c' = []
            \<and> poolNext c < poolNext c'
            \<and> msgId (messages c' (poolNext c)) = MsgIdPacketAck env
            \<and> data (messages c' (poolNext c)) =
                ackPayload (fst (hd (inboundPacketAckTrack c)))
                  (snd (ackBitLoop (fst (hd (inboundPacketAckTrack c)))
                     (mapErase (fst (hd (inboundPacketAckTrack c))) (inboundPacketAckTrack c))))
            \<and> set (outboundQueue c) \<subseteq> set (outboundQueue c')
            \<and> (IsWriteOpen env c \<and> 39 \<le> MaxSendSize env \<longrightarrow> poolNext c \<in> set (outboundQueue c'))))
   \<and> (\<forall>c1. inboundPacketAckTrack c \<noteq> [] \<and> sendOneAck env c = Some c1 \<longrightarrow>
          length (erasedByAck (fst (hd (inboundPacketAckTrack c))) (inboundPacketAckTrack c)) \<le> 33
          \<and> set (erasedByAck (fst (hd (inboundPacketAckTrack c))) (inboundPacketAckTrack c)) =
              fst ` set (inboundPacketAckTrack c) - fst ` set (inboundPacketAckTrack c1)
          \<and> (fst (hd (inboundPacketAckTrack c)) < 2 ^ 22 \<longrightarrow>
               (\<forall>env' s. HandlePacketAckMessage env' (data (messages c1 (poolNext c))) s =
                  fold (FreeOutboundPacketAckTrack env')
                    (erasedByAck (fst (hd (inboundPacketAckTrack c))) (inboundPacketAckTrack c)) s)))"
proof (intro conjI impI allI)
  assume "inboundPacketAckTrack c = []
      \<or> (TimespanToMillisecondsF env (sentTick (snd (hd (inboundPacketAckTrack c)))) (now env)
            < maxAckDelay \<and> length (inboundPacketAckTrack c) < 33)"
  then show "PerformPacketAckSends env c = Some c"
    by (rule PerformPacketAckSends_idle)
next
  assume a: "inboundPacketAckTrack c \<noteq> []
        \<and> (maxAckDelay \<le> TimespanToMillisecondsF env (sentTick (snd (hd (inboundPacketAckTrack c)))) (now env)
             \<or> 33 \<le> length (inboundPacketAckTrack c))"
  obtain c1 where c1: "sendOneAck env c = Some c1"
    using sendOneAck_Some by blast
  obtain c' where c': "SendPacketAckMessage env c1 = Some c'"
    using SendPacketAckMessage_total by blast
  from a have a1: "inboundPacketAckTrack c \<noteq> []" and a2: "maxAckDelay \<le> TimespanToMillisecondsF env (sentTick (snd (hd (inboundPacketAckTrack c)))) (now env)
             \<or> 33 \<le> length (inboundPacketAckTrack c)"
    by simp_all
  note k1 = sendOneAck_keeps [OF c1]
  note k = SendPacketAckMessage_keeps [OF c']
  have "PerformPacketAckSends env c = Some c'" "inboundPacketAckTrack c' = []"
    using PerformPacketAckSends_flush [OF a1 a2 c1 c'] by simp_all
  moreover have "poolNext c < poolNext c'"
    using k1(1) k by simp
  moreover have "msgId (messages c' (poolNext c)) = MsgIdPacketAck env"
    using sendOneAck_message(3) [OF c1] k k1(1) by simp
  moreover have "data (messages c' (poolNext c)) =
                ackPayload (fst (hd (inboundPacketAckTrack c)))
                  (snd (ackBitLoop (fst (hd (inboundPacketAckTrack c)))
                     (mapErase (fst (hd (inboundPacketAckTrack c))) (inboundPacketAckTrack c))))"
    using sendOneAck_message(2) [OF c1] k k1(1) by simp
  moreover have "set (outboundQueue c) \<subseteq> set (outboundQueue c')"
    using k1(2) k by blast
  moreover have "IsWriteOpen env c \<and> 39 \<le> MaxSendSize env \<longrightarrow> poolNext c \<in> set (outboundQueue c')"
    using sendOneAck_queued [OF c1] k by blast
  ultimately show "\<exists>c1 c'. sendOneAck env c = Some c1 \<and> SendPacketAckMessage env c1 = Some c'
            \<and> PerformPacketAckSends env c = Some c' \<and> inboundPacketAckTrack c' = []
            \<and> poolNext c < poolNext c'
            \<and> msgId (messages c' (poolNext c)) = MsgIdPacketAck env
            \<and> data (messages c' (poolNext c)) =
                ackPayload (fst (hd (inboundPacketAckTrack c)))
                  (snd (ackBitLoop (fst (hd (inboundPacketAckTrack c)))
                     (mapErase (fst (hd (inboundPacketAckTrack c))) (inboundPacketAckTrack c))))
            \<and> set (outboundQueue c) \<subseteq> set (outboundQueue c')
            \<and> (IsWriteOpen env c \<and> 39 \<le> MaxSendSize env \<longrightarrow> poolNext c \<in> set (outboundQueue c'))"
    using c1 c' by blast
next
  fix c1
  show "length (erasedByAck (fst (hd (inboundPacketAckTrack c))) (inboundPacketAckTrack c)) \<le> 33"
    by (rule erasedByAck_length)
next
  fix c1
  assume "inboundPacketAckTrack c \<noteq> [] \<and> sendOneAck env c = Some c1"
  then show "set (erasedByAck (fst (hd (inboundPacketAckTrack c))) (inboundPacketAckTrack c)) =
              fst ` set (inboundPacketAckTrack c) - fst ` set (inboundPacketAckTrack c1)"
    using sendOneAck_message(1) [of env c c1] by (simp add: ackBitLoop_keys hd_mapFind)
next
  fix c1 env' s
  assume "inboundPacketAckTrack c \<noteq> [] \<and> sendOneAck env c = Some c1"
    and "fst (hd (inboundPacketAckTrack c)) < 2 ^ 22"
  then show "HandlePacketAckMessage env' (data (messages c1 (poolNext c))) s =
                  fold (FreeOutboundPacketAckTrack env')
                    (erasedByAck (fst (hd (inboundPacketAckTrack c))) (inboundPacketAckTrack c)) s"
    using sendOneAck_message(2) [of env c c1] by (simp add: HandlePacketAckMessage_ackPayload)
qed

lemma ackSample_first:
  "inboundPacketAckTrack ackSample \<noteq> []"
  "sentTick (snd (hd (inboundPacketAckTrack ackSample))) = 0"
  "length (inboundPacketAckTrack ackSample) = 3"
  by (simp_all add: ackSample_def)

lemma ackSample_age:
  "TimespanToMillisecondsF (sampleEnvironment\<lparr> now := t \<rparr>) a b = real (unat (b - a))"
  by (simp add: TimespanToMillisecondsF_def TicksToMillisecondsD_def TicksInBetween_def
      sampleEnvironment_def)

lemma ackSample_open:
  "IsWriteOpen (sampleEnvironment\<lparr> now := t \<rparr>) ackSample"
  "39 \<le> MaxSendSize sampleEnvironment"
  by (simp_all add: IsWriteOpen_def sampleEnvironment_def ackSample_def UDPMessageConnection_def)

theorem PerformPacketAckSends_trigger_witness:
  "PerformPacketAckSends (sampleEnvironment\<lparr> now := 10 \<rparr>) ackSample = Some ackSample
   \<and> PerformPacketAckSends (sampleEnvironment\<lparr> now := 40 \<rparr>) ackSample \<noteq> None
   \<and> inboundPacketAckTrack (the (PerformPacketAckSends (sampleEnvironment\<lparr> now := 40 \<rparr>) ackSample)) = []
   \<and> poolNext ackSample
        \<in> set (outboundQueue (the (PerformPacketAckSends (sampleEnvironment\<lparr> now := 40 \<rparr>) ackSample)))
   \<and> msgId (messages (the (PerformPacketAckSends (sampleEnvironment\<lparr> now := 40 \<rparr>) ackSample))
        (poolNext ackSample)) = 4
   \<and> set (erasedByAck 5 (inboundPacketAckTrack ackSample)) =
        fst ` set (inboundPacketAckTrack ackSample)
        - fst ` set (inboundPacketAckTrack (the (sendOneAck (sampleEnvironment\<lparr> now := 40 \<rparr>) ackSample)))"
proof -
  have h: "fst (hd (inboundPacketAckTrack ackSample)) = 5"
    by (simp add: ackSample_def)
  have i: "MsgIdPacketAck (sampleEnvironment\<lparr> now := 40 \<rparr>) = 4"
    by (simp add: sampleEnvironment_def)
  have idle: "PerformPacketAckSends (sampleEnvironment\<lparr> now := 10 \<rparr>) ackSample = Some ackSample"
    using PerformPacketAckSends_trigger [of ackSample "sampleEnvironment\<lparr> now := 10 \<rparr>"]
    by (simp add: ackSample_first ackSample_age maxAckDelay_def)
  have "\<exists>c1 c'. sendOneAck (sampleEnvironment\<lparr> now := 40 \<rparr>) ackSample = Some c1
      \<and> PerformPacketAckSends (sampleEnvironment\<lparr> now := 40 \<rparr>) ackSample = Some c'
      \<and> inboundPacketAckTrack c' = []
      \<and> msgId (messages c' (poolNext ackSample)) = 4
      \<and> poolNext ackSample \<in> set (outboundQueue c')"
    using PerformPacketAckSends_trigger [of ackSample "sampleEnvironment\<lparr> now := 40 \<rparr>"]
    by (auto simp: ackSample_first ackSample_age maxAckDelay_def ackSample_open i)
  then obtain c1 c' where r: "sendOneAck (sampleEnvironment\<lparr> now := 40 \<rparr>) ackSample = Some c1"
      "PerformPacketAckSends (sampleEnvironment\<lparr> now := 40 \<rparr>) ackSample = Some c'"
      "inboundPacketAckTrack c' = []" "msgId (messages c' (poolNext ackSample)) = 4"
      "poolNext ackSample \<in> set (outboundQueue c')"
    by blast
  have "set (erasedByAck 5 (inboundPacketAckTrack ackSample)) =
        fst ` set (inboundPacketAckTrack ackSample) - fst ` set (inboundPacketAckTrack c1)"
    using PerformPacketAckSends_trigger [of ackSample "sampleEnvironment\<lparr> now := 40 \<rparr>"] r(1)
    by (simp add: ackSample_first h)
  with idle r show ?thesis
    by simp
qed

definition ackReorderSample :: connection where
  "ackReorderSample = (UDPMessageConnection sampleEnvironment ConnectionOK)
     \<lparr> inboundPacketAckTrack :=
         mapIndex 5 (\<lambda>t. t\<lparr> packetID := 5, sentTick := 30 \<rparr>)
           (mapIndex 9 (\<lambda>t. t\<lparr> packetID := 9, sentTick := 0 \<rparr>) []) \<rparr>"

text \<open>
  Claim C4. An ack is to be sent when the oldest pending entry is older than 33 ms
  (\<open>maxAckDelay\<close>, "the maximum time to wait before acking a packet"). The code tests
  the entry that the map yields first, the one with the smallest packet id, which is the
  oldest only when the datagrams came in the order of their ids. Datagram 9 is received at
  tick 0 and datagram 5 at tick 30 (one tick is one millisecond). At tick 40 and still at
  tick 62 the entry of datagram 9 is older than 33 ms, at tick 62 by 29 ms, yet
  PerformPacketAckSends produces no ack message and leaves the connection as it is: the
  entry it tests, the one of datagram 5, is 10 ms and 32 ms old. Only at tick 63, when
  that entry is 33 ms old, the pending acks are sent.
\<close>

theorem PerformPacketAckSends_oldest_entry_waits:
  "map (\<lambda>e. (fst e, sentTick (snd e))) (inboundPacketAckTrack ackReorderSample) = [(5, 30), (9, 0)]
   \<and> maxAckDelay = 33
   \<and> map (\<lambda>e. TimespanToMillisecondsF (sampleEnvironment\<lparr> now := 40 \<rparr>) (sentTick (snd e))
              (now (sampleEnvironment\<lparr> now := 40 \<rparr>)))
        (inboundPacketAckTrack ackReorderSample) = [10, 40]
   \<and> PerformPacketAckSends (sampleEnvironment\<lparr> now := 40 \<rparr>) ackReorderSample = Some ackReorderSample
   \<and> map (\<lambda>e. TimespanToMillisecondsF (sampleEnvironment\<lparr> now := 62 \<rparr>) (sentTick (snd e))
              (now (sampleEnvironment\<lparr> now := 62 \<rparr>)))
        (inboundPacketAckTrack ackReorderSample) = [32, 62]
   \<and> PerformPacketAckSends (sampleEnvironment\<lparr> now := 62 \<rparr>) ackReorderSample = Some ackReorderSample
   \<and> map_option inboundPacketAckTrack
        (PerformPacketAckSends (sampleEnvironment\<lparr> now := 63 \<rparr>) ackReorderSample) = Some []"
proof -
  have t: "inboundPacketAckTrack ackReorderSample =
      [(5, defaultTrack\<lparr> packetID := 5, sentTick := 30 \<rparr>),
       (9, defaultTrack\<lparr> packetID := 9, sentTick := 0 \<rparr>)]"
    by (simp add: ackReorderSample_def)
  note a = ackSample_age
  have i40: "PerformPacketAckSends (sampleEnvironment\<lparr> now := 40 \<rparr>) ackReorderSample = Some ackReorderSample"
    by (rule PerformPacketAckSends_idle) (simp add: t a maxAckDelay_def)
  have i62: "PerformPacketAckSends (sampleEnvironment\<lparr> now := 62 \<rparr>) ackReorderSample = Some ackReorderSample"
    by (rule PerformPacketAckSends_idle) (simp add: t a maxAckDelay_def)
  obtain c1 where c1: "sendOneAck (sampleEnvironment\<lparr> now := 63 \<rparr>) ackReorderSample = Some c1"
    using sendOneAck_Some by blast
  obtain c' where c': "SendPacketAckMessage (sampleEnvironment\<lparr> now := 63 \<rparr>) c1 = Some c'"
    using SendPacketAckMessage_total by blast
  have "inboundPacketAckTrack ackReorderSample \<noteq> []"
    "maxAckDelay \<le> TimespanToMillisecondsF (sampleEnvironment\<lparr> now := 63 \<rparr>)
        (sentTick (snd (hd (inboundPacketAckTrack ackReorderSample))))
        (now (sampleEnvironment\<lparr> now := 63 \<rparr>))
     \<or> 33 \<le> length (inboundPacketAckTrack ackReorderSample)"
    by (simp_all add: t a maxAckDelay_def)
  from PerformPacketAckSends_flush [OF this c1 c']
  have f63: "map_option inboundPacketAckTrack
        (PerformPacketAckSends (sampleEnvironment\<lparr> now := 63 \<rparr>) ackReorderSample) = Some []"
    by simp
  show ?thesis
    using i40 i62 f63 by (simp add: t a maxAckDelay_def)
qed

section \<open>Handling inbound messages\<close>

definition TimespanToMillisecondsD :: "environment \<Rightarrow> tick_t \<Rightarrow> tick_t \<Rightarrow> real" where
  "TimespanToMillisecondsD env oldTick newTick = TicksToMillisecondsD env (TicksInBetween newTick oldTick)"

definition CheckAndSaveContentIDStamp :: "environment \<Rightarrow> u32 \<Rightarrow> u32 \<Rightarrow> packet_id_t \<Rightarrow> connection \<Rightarrow>
    bool \<times> connection" where
  "CheckAndSaveContentIDStamp env messageID cid pid c =
     (case inboundContentIDStamps c (messageID, cid) of
        None \<Rightarrow>
          (True, c\<lparr> inboundContentIDStamps :=
                      (inboundContentIDStamps c)((messageID, cid) \<mapsto> (pid, now env)) \<rparr>)
      | Some stamp \<Rightarrow>
          if PacketIDIsNewerThan pid (fst stamp)
               \<or> TimespanToMillisecondsD env (snd stamp) (now env) > 5 * 1000
          then (True, c\<lparr> inboundContentIDStamps :=
                          (inboundContentIDStamps c)((messageID, cid) \<mapsto> (pid, now env)) \<rparr>)
          else (False, c))"

text \<open>
  SendDisconnectAckMessage calls \<open>EndAndQueueMessage(msg, true)\<close>: the second parameter of
  EndAndQueueMessage is \<open>numBytes\<close>, so the call passes 1 for it and leaves
  \<open>internalQueue\<close> at its default. The default arguments are declared in a header that is
  not among the sources; they are taken as \<open>numBytes = 0\<close> for StartNewMessage and
  \<open>internalQueue = false\<close> for EndAndQueueMessage.
\<close>

definition SendDisconnectAckMessage :: "environment \<Rightarrow> connection \<Rightarrow> connection option" where
  "SendDisconnectAckMessage env c =
     (let r = StartNewMessage (MsgIdDisconnectAck env) 0 c;
          c1 = updMsg (fst r) (\<lambda>m. m\<lparr> priority := cMaxPriority env, reliable := False \<rparr>) (snd r)
      in EndAndQueueMessage env (fst r) (Some 1) False c1)"

definition HandleDisconnectMessage :: "environment \<Rightarrow> connection \<Rightarrow> connection option" where
  "HandleDisconnectMessage env c =
     (if connectionState c \<noteq> ConnectionClosed
      then SendDisconnectAckMessage env (c\<lparr> connectionState := ConnectionDisconnecting \<rparr>)
      else Some c)"

definition HandlePingRequestMessage :: "environment \<Rightarrow> u8 list \<Rightarrow> connection \<Rightarrow> connection option" where
  "HandlePingRequestMessage env bytes c =
     (if length bytes \<noteq> 1 then Some c
      else (let r = StartNewMessage (MsgIdPingReply env) 1 c;
                c1 = updMsg (fst r) (\<lambda>m. m\<lparr> data := (data m)[0 := hd bytes],
                                               priority := cMaxPriority env - 1 \<rparr>) (snd r)
            in EndAndQueueMessage env (fst r) (Some 1) True c1))"

text \<open>
  UDPMessageConnection::HandleMessage: the result says whether the message was handled.
  The body of HandleFlowControlRequestMessage is commented out in the source.
\<close>

definition HandleMessage :: "environment \<Rightarrow> packet_id_t \<Rightarrow> u32 \<Rightarrow> u8 list \<Rightarrow> connection \<Rightarrow>
    (bool \<times> connection) option" where
  "HandleMessage env pid messageID bytes c =
     (if messageID = MsgIdPingRequest env \<or> messageID = MsgIdPingReply env then Some (False, c)
      else if messageID = MsgIdFlowControlRequest env then Some (True, c)
      else if messageID = MsgIdPacketAck env then Some (True, HandlePacketAckMessage env bytes c)
      else if messageID = MsgIdDisconnect env
      then map_option (Pair True) (HandleDisconnectMessage env c)
      else if messageID = MsgIdDisconnectAck env then Some (True, HandleDisconnectAckMessage c)
      else if \<not> hasInboundMessageHandler env then Some (False, c)
      else if ComputeContentID env messageID bytes \<noteq> 0
      then (let r = CheckAndSaveContentIDStamp env messageID (ComputeContentID env messageID bytes) pid c
            in Some (\<not> fst r, snd r))
      else Some (False, c))"

text \<open>The default branch of HandleInboundMessage: the message goes to the inbound queue.\<close>

definition enqueueInbound :: "u32 \<Rightarrow> u8 list \<Rightarrow> connection \<Rightarrow> connection" where
  "enqueueInbound messageID bytes c =
     (let r = AllocateNewMessage c;
          c1 = updMsg (fst r) (\<lambda>m. m\<lparr> data := bytes, dataSize := length bytes,
                                         msgId := messageID, contentID := 0 \<rparr>) (snd r)
      in if length (inboundMessageQueue c1) < inboundMessageQueueCapacity
         then c1\<lparr> inboundMessageQueue := inboundMessageQueue c1 @ [fst r] \<rparr>
         else FreeMessage (fst r) c1)"

definition HandleInboundMessage :: "environment \<Rightarrow> packet_id_t \<Rightarrow> u8 list \<Rightarrow> connection \<Rightarrow>
    connection option" where
  "HandleInboundMessage env pid bytes c =
     (let messageID = fst (ReadVLE8_16_32 env bytes);
          rest = drop (snd (ReadVLE8_16_32 env bytes)) bytes
      in if messageID = VLEReadError then Some c
         else (case HandleMessage env pid messageID rest c of
                 None \<Rightarrow> None
               | Some r \<Rightarrow>
                   if fst r then Some (snd r)
                   else if messageID = MsgIdPingRequest env
                   then HandlePingRequestMessage env rest (snd r)
                   else if messageID = MsgIdPingReply env
                   then Some (HandlePingReplyMessage env rest (snd r))
                   else Some (enqueueInbound messageID rest (snd r))))"

section \<open>Reassembly of fragments\<close>

text \<open>
  Modelled from the spec: FragmentedTransferManager is not among the sources. The receiver
  side "buffers incoming fragments keyed by transfer id, assembles on completion"; a
  reassembly buffer holds the "transfer id; total fragment count; sparse array of received
  fragment payloads", it is "created on first fragment" and "later fragments append; when
  the last fragment arrives, the buffer is assembled". A fragment for a transfer without a
  buffer is ignored.
\<close>

definition NewFragmentStartReceived :: "u8 \<Rightarrow> u32 \<Rightarrow> u8 list \<Rightarrow> connection \<Rightarrow> connection" where
  "NewFragmentStartReceived tid numTotal payload c =
     c\<lparr> fragmentedReceives :=
          filter (\<lambda>b. rTransferID b \<noteq> tid) (fragmentedReceives c)
          @ [\<lparr> rTransferID = tid, rTotalNumFragments = numTotal, rFragments = [(0, payload)] \<rparr>] \<rparr>"

definition addFragment :: "u32 \<Rightarrow> u8 list \<Rightarrow> ReassemblyBuffer \<Rightarrow> ReassemblyBuffer" where
  "addFragment idx payload b =
     b\<lparr> rFragments := (idx, payload) # filter (\<lambda>f. fst f \<noteq> idx) (rFragments b) \<rparr>"

definition NewFragmentReceived :: "u8 \<Rightarrow> u32 \<Rightarrow> u8 list \<Rightarrow> connection \<Rightarrow> bool \<times> connection" where
  "NewFragmentReceived tid idx payload c =
     (case find (\<lambda>b. rTransferID b = tid) (fragmentedReceives c) of
        None \<Rightarrow> (False, c)
      | Some b \<Rightarrow>
          (length (rFragments (addFragment idx payload b)) = unat (rTotalNumFragments b),
           c\<lparr> fragmentedReceives :=
                map (\<lambda>b'. if rTransferID b' = tid then addFragment idx payload b' else b')
                  (fragmentedReceives c) \<rparr>))"

definition AssembleMessage :: "u8 \<Rightarrow> connection \<Rightarrow> u8 list" where
  "AssembleMessage tid c =
     (case find (\<lambda>b. rTransferID b = tid) (fragmentedReceives c) of
        None \<Rightarrow> []
      | Some b \<Rightarrow> concat (map snd (sort_key fst (rFragments b))))"

definition FreeMessage_transfer :: "u8 \<Rightarrow> connection \<Rightarrow> connection" where
  "FreeMessage_transfer tid c =
     c\<lparr> fragmentedReceives := filter (\<lambda>b. rTransferID b \<noteq> tid) (fragmentedReceives c) \<rparr>"

section \<open>Parsing an inbound datagram\<close>

text \<open>
  Modelled from the spec: the set of received packet ids is a container that is not among
  the sources, a "bounded FIFO; overflow drops the oldest id" of capacity 64 K.
\<close>

definition receivedPacketIDsCapacity :: nat where
  "receivedPacketIDsCapacity = 64 * 1024"

definition HaveReceivedPacketID :: "packet_id_t \<Rightarrow> connection \<Rightarrow> bool" where
  "HaveReceivedPacketID pid c = (pid \<in> set (receivedPacketIDs c))"

definition AddReceivedPacketIDStats :: "packet_id_t \<Rightarrow> connection \<Rightarrow> connection" where
  "AddReceivedPacketIDStats pid c =
     (if pid \<in> set (receivedPacketIDs c) then c
      else if length (receivedPacketIDs c) < receivedPacketIDsCapacity
      then c\<lparr> receivedPacketIDs := receivedPacketIDs c @ [pid] \<rparr>
      else c\<lparr> receivedPacketIDs := tl (receivedPacketIDs c) @ [pid] \<rparr>)"

definition AddInboundStats :: "environment \<Rightarrow> nat \<Rightarrow> nat \<Rightarrow> nat \<Rightarrow> connection \<Rightarrow> connection" where
  "AddInboundStats env numBytes numPackets numMessages c =
     (if numBytes = 0 \<and> numMessages = 0 \<and> numPackets = 0 then c
      else c\<lparr> traffic := traffic c @
             [\<lparr> bytesIn = numBytes, packetsIn = numPackets, messagesIn = numMessages,
                bytesOut = 0, packetsOut = 0, messagesOut = 0, tick = now env \<rparr>] \<rparr>)"

definition AddOutboundStats :: "environment \<Rightarrow> nat \<Rightarrow> nat \<Rightarrow> nat \<Rightarrow> connection \<Rightarrow> connection" where
  "AddOutboundStats env numBytes numPackets numMessages c =
     (if numBytes = 0 \<and> numMessages = 0 \<and> numPackets = 0 then c
      else c\<lparr> traffic := traffic c @
             [\<lparr> bytesIn = 0, packetsIn = 0, messagesIn = 0,
                bytesOut = numBytes, packetsOut = numPackets, messagesOut = numMessages,
                tick = now env \<rparr>] \<rparr>)"

text \<open>
  The header of one message in a datagram, as the loop of ExtractMessages reads it at byte
  position \<open>pos\<close>. Reading does not change the connection, so the fields are read as a
  whole; the checks of the source follow in extractMessage in the order of the source.
  \<open>hPayloadPos\<close> is the byte position behind the header.
\<close>

record messageHeader =
  hFragmentStart :: bool
  hFragment :: bool
  hInOrder :: bool
  hReliable :: bool
  hContentLength :: nat
  hReliableMessageNumber :: u32
  hNumTotalFragments :: u32
  hTransferID :: u8
  hFragmentNumber :: u32
  hPayloadPos :: nat

definition readMessageHeader :: "environment \<Rightarrow> u32 \<Rightarrow> u8 list \<Rightarrow> nat \<Rightarrow> messageHeader" where
  "readMessageHeader env base bytes pos =
     (let w = ReadU16 (drop pos bytes);
          fs = bit w 15;
          f = (bit w 14 \<or> fs);
          rel = bit w 12;
          pos1 = pos + 2;
          d = (if rel then ReadVLE8_16 env (drop pos1 bytes) else (0, 0));
          pos2 = pos1 + snd d;
          tot = (if fs then ReadVLE8_16_32 env (drop pos2 bytes) else (0, 0));
          pos3 = pos2 + snd tot;
          tid = (if f then ReadU8 env (drop pos3 bytes) else (0, 0));
          pos4 = pos3 + snd tid;
          fnum = (if f \<and> \<not> fs then ReadVLE8_16_32 env (drop pos4 bytes) else (0, 0))
      in \<lparr> hFragmentStart = fs, hFragment = f, hInOrder = bit w 13, hReliable = rel,
           hContentLength = unat (w AND mask 11),
           hReliableMessageNumber = (if rel then base + fst d else 0),
           hNumTotalFragments = fst tot, hTransferID = fst tid, hFragmentNumber = fst fnum,
           hPayloadPos = pos4 + snd fnum \<rparr>)"

text \<open>
  The outcome of one iteration of the loop: the source returns from ExtractMessages
  (\<open>Abort\<close>) or goes on at the next byte position, having handled 0 or 1 messages.
\<close>

datatype parseStep = Abort connection | Next connection nat nat

definition receiveFragment :: "environment \<Rightarrow> packet_id_t \<Rightarrow> messageHeader \<Rightarrow> u8 list \<Rightarrow> nat \<Rightarrow>
    connection \<Rightarrow> parseStep option" where
  "receiveFragment env pid h payload nextPos c =
     (let r = NewFragmentReceived (hTransferID h) (hFragmentNumber h) payload c
      in if fst r
         then (let c2 = (snd r)\<lparr> assembledData := AssembleMessage (hTransferID h) (snd r) \<rparr>
               in map_option (\<lambda>c3. Next (FreeMessage_transfer (hTransferID h) c3) nextPos 1)
                    (HandleInboundMessage env pid (assembledData c2) c2))
         else Some (Next (snd r) nextPos 0))"

definition dispatchMessage :: "environment \<Rightarrow> packet_id_t \<Rightarrow> u8 list \<Rightarrow> messageHeader \<Rightarrow> bool \<Rightarrow>
    connection \<Rightarrow> parseStep option" where
  "dispatchMessage env pid bytes h duplicateMessage c =
     (let payload = take (hContentLength h) (drop (hPayloadPos h) bytes);
          nextPos = hPayloadPos h + hContentLength h
      in if hFragmentStart h
         then (if hNumTotalFragments h = VLEReadError \<or> hNumTotalFragments h \<le> 1 then Some (Abort c)
               else if \<not> duplicateMessage
               then Some (Next (NewFragmentStartReceived (hTransferID h) (hNumTotalFragments h) payload c)
                            nextPos 0)
               else Some (Next c nextPos 0))
         else if hFragment h
         then (if hFragmentNumber h = VLEReadError then Some (Abort c)
               else receiveFragment env pid h payload nextPos c)
         else if \<not> duplicateMessage
         then map_option (\<lambda>c'. Next c' nextPos 1) (HandleInboundMessage env pid payload c)
         else Some (Next c nextPos 0))"

definition extractMessage :: "environment \<Rightarrow> packet_id_t \<Rightarrow> u32 \<Rightarrow> u8 list \<Rightarrow> nat \<Rightarrow> connection \<Rightarrow>
    parseStep option" where
  "extractMessage env pid base bytes pos c =
     (if length bytes - pos < 2 then Some (Abort c)
      else (let h = readMessageHeader env base bytes pos;
                duplicateMessage = (hReliable h \<and> hReliableMessageNumber h \<in> receivedReliableMessages c);
                c1 = (if hReliable h \<and> \<not> duplicateMessage
                      then c\<lparr> receivedReliableMessages :=
                                insert (hReliableMessageNumber h) (receivedReliableMessages c) \<rparr>
                      else c)
            in if hContentLength h = 0 then Some (Abort c1)
               else if length bytes - hPayloadPos h < hContentLength h then Some (Abort c1)
               else dispatchMessage env pid bytes h duplicateMessage c1))"

lemma readMessageHeader_pos: "pos + 2 \<le> hPayloadPos (readMessageHeader env base bytes pos)"
  by (simp add: readMessageHeader_def Let_def)

lemma receiveFragment_next: "receiveFragment env pid h payload n c = Some (Next c' p k) \<Longrightarrow> p = n"
  by (auto simp: receiveFragment_def Let_def split: if_splits)

lemma dispatchMessage_next:
  "dispatchMessage env pid bytes h dup c = Some (Next c' p k) \<Longrightarrow> p = hPayloadPos h + hContentLength h"
  by (auto simp: dispatchMessage_def Let_def dest: receiveFragment_next split: if_splits)

lemma extractMessage_next:
  assumes "extractMessage env pid base bytes pos c = Some (Next c' p k)"
  shows "pos < p"
proof -
  have "p = hPayloadPos (readMessageHeader env base bytes pos)
            + hContentLength (readMessageHeader env base bytes pos)"
    using assms
    by (auto simp: extractMessage_def Let_def dest: dispatchMessage_next split: if_splits)
  then show ?thesis
    using readMessageHeader_pos [of pos env base bytes] by simp
qed

text \<open>
  The loop \<open>while(reader.BytesLeft() > 0)\<close>. The result holds the connection and, when the
  loop ran to its end, the number of messages handled; \<open>None\<close> in its place when the
  source returned from inside the loop.
\<close>

function extractLoop :: "environment \<Rightarrow> packet_id_t \<Rightarrow> u32 \<Rightarrow> u8 list \<Rightarrow> nat \<Rightarrow> connection \<Rightarrow> nat \<Rightarrow>
    (connection \<times> nat option) option" where
  "extractLoop env pid base bytes pos c numMessagesReceived =
     (if pos < length bytes
      then (case extractMessage env pid base bytes pos c of
              None \<Rightarrow> None
            | Some (Abort c') \<Rightarrow> Some (c', None)
            | Some (Next c' pos' k) \<Rightarrow>
                extractLoop env pid base bytes pos' c' (numMessagesReceived + k))
      else Some (c, Some numMessagesReceived))"
  by pat_completeness auto
termination
  by (relation "measure (\<lambda>(env, pid, base, bytes, pos, c, n). length bytes - pos)")
    (auto dest: extractMessage_next)

declare extractLoop.simps [simp del]

text \<open>
  The datagram header: flags and packet id, then the base of the reliable message numbers.
  The field for the in-order delta is not read (the read is commented out in the source),
  so \<open>inOrderID\<close> is 0 and its check never fails.
\<close>

definition readPacketID :: "u8 list \<Rightarrow> packet_id_t" where
  "readPacketID bytes = push_bit 6 (ucast (ReadU16 (drop 1 bytes))) OR ucast ((bytes ! 0) AND 63)"

definition rememberForAck :: "environment \<Rightarrow> packet_id_t \<Rightarrow> connection \<Rightarrow> connection" where
  "rememberForAck env pid c =
     c\<lparr> inboundPacketAckTrack :=
          mapIndex pid (\<lambda>t. t\<lparr> packetID := pid, sentTick := now env \<rparr>) (inboundPacketAckTrack c) \<rparr>"

definition finishDatagram :: "environment \<Rightarrow> packet_id_t \<Rightarrow> (connection \<times> nat option) \<Rightarrow> connection" where
  "finishDatagram env pid r =
     (case snd r of
        None \<Rightarrow> fst r
      | Some n \<Rightarrow> AddInboundStats env 0 1 n (AddReceivedPacketIDStats pid (fst r)))"

definition ExtractMessages :: "environment \<Rightarrow> u8 list \<Rightarrow> connection \<Rightarrow> connection option" where
  "ExtractMessages env bytes c =
     (if CapacityLeft inboundMessageQueueCapacity (inboundMessageQueue c) < 64 then Some c
      else if length bytes < 3 then Some (c\<lparr> lastHeardTime := now env \<rparr>)
      else (let packetReliable = bit (bytes ! 0) 6;
                pid = readPacketID bytes;
                b = (if packetReliable then ReadVLE16_32 env (drop 3 bytes) else (0, 0));
                c1 = c\<lparr> lastHeardTime := now env \<rparr>;
                c2 = (if packetReliable then rememberForAck env pid c1 else c1)
            in if HaveReceivedPacketID pid c2 then Some c2
               else map_option (finishDatagram env pid)
                      (extractLoop env pid (fst b) bytes (3 + snd b) c2 0)))"

section \<open>A datagram that meets a full inbound queue\<close>

text \<open>
  Claim C9. When the inbound message queue has fewer than 64 slots left, ExtractMessages
  returns at once and leaves the whole connection as it is: no message is handled or
  queued, no entry is added to the pending acks, the set of received packet ids and
  lastHeardTime keep their values.
\<close>

theorem ExtractMessages_full_queue:
  assumes "CapacityLeft inboundMessageQueueCapacity (inboundMessageQueue c) < 64"
  shows "ExtractMessages env bytes c = Some c"
  using assms by (simp add: ExtractMessages_def)

definition fullQueueSample :: connection where
  "fullQueueSample = (UDPMessageConnection sampleEnvironment ConnectionOK)
     \<lparr> inboundMessageQueue := replicate (512 * 1024 - 63) 0 \<rparr>"

definition oneMessageDatagram :: "u8 list" where
  "oneMessageDatagram = [0x41, 0, 0, 7, 0, 0x02, 0x10, 0, 10, 0xAA]"

theorem ExtractMessages_full_queue_witness:
  "CapacityLeft inboundMessageQueueCapacity (inboundMessageQueue fullQueueSample) = 63
   \<and> ExtractMessages (sampleEnvironment\<lparr> now := 5 \<rparr>) oneMessageDatagram fullQueueSample
       = Some fullQueueSample"
proof -
  have c: "CapacityLeft inboundMessageQueueCapacity (inboundMessageQueue fullQueueSample) = 63"
    by (simp add: fullQueueSample_def CapacityLeft_def inboundMessageQueueCapacity_def)
  then have "CapacityLeft inboundMessageQueueCapacity (inboundMessageQueue fullQueueSample) < 64"
    by simp
  from ExtractMessages_full_queue [OF this] c show ?thesis
    by simp
qed

lemma sample_codec [simp]:
  "ReadU8 (sampleEnvironment\<lparr> now := t \<rparr>) = sampleReadU8"
  "ReadVLE8_16 (sampleEnvironment\<lparr> now := t \<rparr>) = sampleReadVLE8_16"
  "ReadVLE16_32 (sampleEnvironment\<lparr> now := t \<rparr>) = sampleReadVLE16_32"
  "ReadVLE8_16_32 (sampleEnvironment\<lparr> now := t \<rparr>) = sampleReadVLE8_16_32"
  by (simp_all add: sampleEnvironment_def)


section \<open>Handling a message leaves the set of received reliable message numbers alone\<close>

lemma rrm_primitives [simp]:
  "receivedReliableMessages (updMsg p f c) = receivedReliableMessages c"
  "receivedReliableMessages (FreeMessage p c) = receivedReliableMessages c"
  "receivedReliableMessages (signalMsgsOut c) = receivedReliableMessages c"
  "receivedReliableMessages (snd (StartNewMessage ident n c)) = receivedReliableMessages c"
  "receivedReliableMessages (snd (AllocateNewMessage c)) = receivedReliableMessages c"
  "receivedReliableMessages (AddMessage t p c) = receivedReliableMessages c"
  "receivedReliableMessages (RemoveMessage t p c) = receivedReliableMessages c"
  "receivedReliableMessages (setDataSize p k c) = receivedReliableMessages c"
  "receivedReliableMessages (snd (AllocateNewFragmentedTransfer c)) = receivedReliableMessages c"
  "receivedReliableMessages (UpdateRTOCounterOnPacketAck r c) = receivedReliableMessages c"
  "receivedReliableMessages (HandleDisconnectAckMessage c) = receivedReliableMessages c"
  "receivedReliableMessages (snd (CheckAndSaveContentIDStamp env mi ci pid c)) = receivedReliableMessages c"
  "receivedReliableMessages (NewFragmentStartReceived tid tot bs c) = receivedReliableMessages c"
  "receivedReliableMessages (snd (NewFragmentReceived tid idx bs c)) = receivedReliableMessages c"
  "receivedReliableMessages (FreeMessage_transfer tid c) = receivedReliableMessages c"
  by (simp_all add: updMsg_def FreeMessage_def signalMsgsOut_def StartNewMessage_def
      AllocateNewMessage_def AddMessage_def RemoveMessage_def setDataSize_def
      AllocateNewFragmentedTransfer_def UpdateRTOCounterOnPacketAck_def
      HandleDisconnectAckMessage_def CheckAndSaveContentIDStamp_def NewFragmentStartReceived_def
      NewFragmentReceived_def FreeMessage_transfer_def Let_def split: option.splits)

lemma rrm_splitFragment [simp]:
  "receivedReliableMessages (splitFragment i src t b idx n c) = receivedReliableMessages c"
  by (simp add: splitFragment_def Let_def split_beta)

lemma rrm_splitLoop [simp]:
  "receivedReliableMessages (splitLoop i m src t b idx c) = receivedReliableMessages c"
proof (induction i m src t b idx c rule: splitLoop.induct)
  case (1 i m src t b idx c)
  show ?case
    apply (subst splitLoop.simps)
    using 1 by simp
qed

lemma rrm_queueUnsplitMessage [simp]:
  "receivedReliableMessages (queueUnsplitMessage p i c) = receivedReliableMessages c"
  by (simp add: queueUnsplitMessage_def Let_def)

lemma rrm_SplitAndQueueMessage:
  "SplitAndQueueMessage p i k c = Some c' \<Longrightarrow> receivedReliableMessages c' = receivedReliableMessages c"
  by (auto simp: SplitAndQueueMessage_def Let_def split_beta split: if_splits)

lemma rrm_EndAndQueueMessage:
  assumes "EndAndQueueMessage env p n i c = Some c'"
  shows "receivedReliableMessages c' = receivedReliableMessages c"
proof (cases rule: EndAndQueueMessage_cases [of env p n i c])
  case free
  with assms show ?thesis by auto
next
  case split
  with assms show ?thesis by (auto dest: rrm_SplitAndQueueMessage)
next
  case plain
  with assms show ?thesis by auto
qed

lemma rrm_freeTrackMessages [simp]:
  "receivedReliableMessages (fold freeTrackMessage ms c) = receivedReliableMessages c"
  by (induction ms arbitrary: c) (simp_all add: freeTrackMessage_def split: option.splits)

lemma rrm_FreeOutboundPacketAckTrack [simp]:
  "receivedReliableMessages (FreeOutboundPacketAckTrack env pid c) = receivedReliableMessages c"
  by (simp add: FreeOutboundPacketAckTrack_def Let_def split: option.splits)

lemma rrm_ackFreeSteps [simp]:
  "receivedReliableMessages (fold (ackFreeStep env pid sequence) js c) = receivedReliableMessages c"
  by (induction js arbitrary: c) (simp_all add: ackFreeStep_def)

lemma rrm_HandlePacketAckMessage [simp]:
  "receivedReliableMessages (HandlePacketAckMessage env bs c) = receivedReliableMessages c"
  by (simp add: HandlePacketAckMessage_def Let_def)

lemma rrm_HandlePingReplyMessage [simp]:
  "receivedReliableMessages (HandlePingReplyMessage env bs c) = receivedReliableMessages c"
  by (simp add: HandlePingReplyMessage_def Let_def split: option.splits)

lemma rrm_enqueueInbound [simp]:
  "receivedReliableMessages (enqueueInbound i bs c) = receivedReliableMessages c"
  by (simp add: enqueueInbound_def Let_def)

lemma rrm_HandleDisconnectMessage:
  assumes "HandleDisconnectMessage env c = Some c'"
  shows "receivedReliableMessages c' = receivedReliableMessages c"
proof (cases "connectionState c \<noteq> ConnectionClosed")
  case True
  let ?c0 = "c\<lparr> connectionState := ConnectionDisconnecting \<rparr>"
  let ?r = "StartNewMessage (MsgIdDisconnectAck env) 0 ?c0"
  have "EndAndQueueMessage env (fst ?r) (Some 1) False
          (updMsg (fst ?r) (\<lambda>m. m\<lparr> priority := cMaxPriority env, reliable := False \<rparr>) (snd ?r)) = Some c'"
    using assms True by (simp add: HandleDisconnectMessage_def SendDisconnectAckMessage_def Let_def)
  from rrm_EndAndQueueMessage [OF this] show ?thesis by simp
next
  case False
  with assms show ?thesis by (simp add: HandleDisconnectMessage_def)
qed

lemma rrm_HandlePingRequestMessage:
  assumes "HandlePingRequestMessage env bs c = Some c'"
  shows "receivedReliableMessages c' = receivedReliableMessages c"
proof (cases "length bs \<noteq> 1")
  case True
  with assms show ?thesis by (simp add: HandlePingRequestMessage_def)
next
  case False
  let ?r = "StartNewMessage (MsgIdPingReply env) 1 c"
  have "EndAndQueueMessage env (fst ?r) (Some 1) True
          (updMsg (fst ?r) (\<lambda>m. m\<lparr> data := (data m)[0 := hd bs],
                                       priority := cMaxPriority env - 1 \<rparr>) (snd ?r)) = Some c'"
    using assms False by (simp add: HandlePingRequestMessage_def Let_def)
  from rrm_EndAndQueueMessage [OF this] show ?thesis by simp
qed

lemma HandleMessage_cases:
  assumes "HandleMessage env pid i bs c = Some r"
  obtains (same) "snd r = c"
  | (ack) "snd r = HandlePacketAckMessage env bs c"
  | (disconnect) "HandleDisconnectMessage env c = Some (snd r)"
  | (disconnectAck) "snd r = HandleDisconnectAckMessage c"
  | (stamp) "snd r = snd (CheckAndSaveContentIDStamp env i (ComputeContentID env i bs) pid c)"
proof (cases "i = MsgIdPingRequest env \<or> i = MsgIdPingReply env")
  case True
  then have "HandleMessage env pid i bs c = Some (False, c)"
    unfolding HandleMessage_def by (rule if_P)
  with assms show ?thesis by (intro same) auto
next
  case n1: False
  show ?thesis
  proof (cases "i = MsgIdFlowControlRequest env")
    case True
    have "HandleMessage env pid i bs c = Some (True, c)"
      unfolding HandleMessage_def by (simp only: n1 if_False) (simp add: True)
    with assms show ?thesis by (intro same) auto
  next
    case n2: False
    show ?thesis
    proof (cases "i = MsgIdPacketAck env")
      case True
      have "HandleMessage env pid i bs c = Some (True, HandlePacketAckMessage env bs c)"
        unfolding HandleMessage_def by (simp only: n1 n2 if_False) (simp add: True)
      with assms show ?thesis by (intro ack) auto
    next
      case n3: False
      show ?thesis
      proof (cases "i = MsgIdDisconnect env")
        case True
        have "HandleMessage env pid i bs c = map_option (Pair True) (HandleDisconnectMessage env c)"
          unfolding HandleMessage_def by (simp only: n1 n2 n3 if_False) (simp add: True)
        with assms show ?thesis by (intro disconnect) auto
      next
        case n4: False
        show ?thesis
        proof (cases "i = MsgIdDisconnectAck env")
          case True
          have "HandleMessage env pid i bs c = Some (True, HandleDisconnectAckMessage c)"
            unfolding HandleMessage_def by (simp only: n1 n2 n3 n4 if_False) (simp add: True)
          with assms show ?thesis by (intro disconnectAck) auto
        next
          case n5: False
          have "HandleMessage env pid i bs c =
              (if \<not> hasInboundMessageHandler env then Some (False, c)
               else if ComputeContentID env i bs \<noteq> 0
               then (let r = CheckAndSaveContentIDStamp env i (ComputeContentID env i bs) pid c
                     in Some (\<not> fst r, snd r))
               else Some (False, c))"
            unfolding HandleMessage_def by (simp only: n1 n2 n3 n4 n5 if_False)
          with assms consider "r = (False, c)"
            | "r = (\<not> fst (CheckAndSaveContentIDStamp env i (ComputeContentID env i bs) pid c),
                   snd (CheckAndSaveContentIDStamp env i (ComputeContentID env i bs) pid c))"
            by (auto simp: Let_def split: if_splits)
          then show ?thesis
          proof cases
            case 1
            then show ?thesis by (intro same) auto
          next
            case 2
            then show ?thesis by (intro stamp) auto
          qed
        qed
      qed
    qed
  qed
qed

lemma rrm_HandleMessage:
  assumes "HandleMessage env pid i bs c = Some r"
  shows "receivedReliableMessages (snd r) = receivedReliableMessages c"
  using assms
proof (cases rule: HandleMessage_cases)
  case disconnect
  then show ?thesis by (rule rrm_HandleDisconnectMessage)
qed simp_all

lemma rrm_HandleInboundMessage:
  assumes "HandleInboundMessage env pid bs c = Some c'"
  shows "receivedReliableMessages c' = receivedReliableMessages c"
proof (cases "fst (ReadVLE8_16_32 env bs) = VLEReadError")
  case True
  with assms show ?thesis by (simp add: HandleInboundMessage_def Let_def)
next
  case False
  let ?i = "fst (ReadVLE8_16_32 env bs)"
  let ?rest = "drop (snd (ReadVLE8_16_32 env bs)) bs"
  from assms False obtain r where r: "HandleMessage env pid ?i ?rest c = Some r"
    by (auto simp: HandleInboundMessage_def Let_def split: option.splits)
  have s: "receivedReliableMessages (snd r) = receivedReliableMessages c"
    using r by (rule rrm_HandleMessage)
  from assms False r have "receivedReliableMessages c' = receivedReliableMessages (snd r)"
    by (auto simp: HandleInboundMessage_def Let_def dest: rrm_HandlePingRequestMessage
        split: if_splits)
  with s show ?thesis by simp
qed

section \<open>Duplicate reliable messages\<close>

fun stepState :: "parseStep \<Rightarrow> connection" where
  "stepState (Abort c) = c"
| "stepState (Next c p k) = c"

lemma rrm_receiveFragment:
  assumes "receiveFragment env pid h payload n c = Some st"
  shows "receivedReliableMessages (stepState st) = receivedReliableMessages c"
proof (cases "fst (NewFragmentReceived (hTransferID h) (hFragmentNumber h) payload c)")
  case True
  let ?r = "NewFragmentReceived (hTransferID h) (hFragmentNumber h) payload c"
  let ?c2 = "(snd ?r)\<lparr> assembledData := AssembleMessage (hTransferID h) (snd ?r) \<rparr>"
  from assms True obtain c3 where c3: "HandleInboundMessage env pid (assembledData ?c2) ?c2 = Some c3"
    and st: "st = Next (FreeMessage_transfer (hTransferID h) c3) n 1"
    by (auto simp: receiveFragment_def Let_def)
  from rrm_HandleInboundMessage [OF c3] st show ?thesis by simp
next
  case False
  with assms show ?thesis by (auto simp: receiveFragment_def Let_def)
qed

lemma rrm_dispatchMessage:
  assumes "dispatchMessage env pid bytes h dup c = Some st"
  shows "receivedReliableMessages (stepState st) = receivedReliableMessages c"
proof (cases "hFragmentStart h")
  case True
  with assms show ?thesis
    by (auto simp: dispatchMessage_def Let_def split: if_splits)
next
  case fs: False
  show ?thesis
  proof (cases "hFragment h")
    case True
    with assms fs show ?thesis
      by (auto simp: dispatchMessage_def Let_def dest: rrm_receiveFragment split: if_splits)
  next
    case False
    with assms fs show ?thesis
      by (auto simp: dispatchMessage_def Let_def dest: rrm_HandleInboundMessage split: if_splits)
  qed
qed

lemma extractMessage_inserts:
  assumes "extractMessage env pid base bytes pos c = Some st" and "pos + 2 \<le> length bytes"
    and "hReliable (readMessageHeader env base bytes pos)"
  shows "hReliableMessageNumber (readMessageHeader env base bytes pos)
           \<in> receivedReliableMessages (stepState st)"
proof -
  let ?h = "readMessageHeader env base bytes pos"
  let ?dup = "hReliable ?h \<and> hReliableMessageNumber ?h \<in> receivedReliableMessages c"
  let ?c1 = "if hReliable ?h \<and> \<not> ?dup
             then c\<lparr> receivedReliableMessages :=
                       insert (hReliableMessageNumber ?h) (receivedReliableMessages c) \<rparr>
             else c"
  have in1: "hReliableMessageNumber ?h \<in> receivedReliableMessages ?c1"
    using assms(3) by simp
  have l: "\<not> length bytes - pos < 2"
    using assms(2) by simp
  consider (abort) "st = Abort ?c1" | (go) "dispatchMessage env pid bytes ?h ?dup ?c1 = Some st"
    using assms(1) l unfolding extractMessage_def Let_def by (simp split: if_splits)
  then show ?thesis
  proof cases
    case abort
    with in1 show ?thesis by simp
  next
    case go
    from rrm_dispatchMessage [OF go] in1 show ?thesis by simp
  qed
qed

lemma extractMessage_drops:
  assumes "pos + 2 \<le> length bytes"
    and "hReliable (readMessageHeader env base bytes pos)"
    and "hReliableMessageNumber (readMessageHeader env base bytes pos) \<in> receivedReliableMessages c"
    and "hFragmentStart (readMessageHeader env base bytes pos)
          \<or> \<not> hFragment (readMessageHeader env base bytes pos)"
    and "hContentLength (readMessageHeader env base bytes pos) \<noteq> 0"
    and "hPayloadPos (readMessageHeader env base bytes pos)
          + hContentLength (readMessageHeader env base bytes pos) \<le> length bytes"
    and "hFragmentStart (readMessageHeader env base bytes pos) \<longrightarrow>
           hNumTotalFragments (readMessageHeader env base bytes pos) \<noteq> VLEReadError
           \<and> 1 < hNumTotalFragments (readMessageHeader env base bytes pos)"
  shows "extractMessage env pid base bytes pos c =
           Some (Next c (hPayloadPos (readMessageHeader env base bytes pos)
                          + hContentLength (readMessageHeader env base bytes pos)) 0)"
proof -
  let ?h = "readMessageHeader env base bytes pos"
  have l: "\<not> length bytes - pos < 2" "\<not> length bytes - hPayloadPos ?h < hContentLength ?h"
    using assms(1,6) by simp_all
  have "extractMessage env pid base bytes pos c = dispatchMessage env pid bytes ?h True c"
    unfolding extractMessage_def Let_def using l assms(2,3,5) by simp
  also have "\<dots> = Some (Next c (hPayloadPos ?h + hContentLength ?h) 0)"
    unfolding dispatchMessage_def Let_def using assms(4,7) by (auto simp: not_le)
  finally show ?thesis .
qed

text \<open>
  Claim C1, as the code has it. In the loop of ExtractMessages a message with the reliable
  flag whose reliable message number is already in the set of received reliable messages,
  and which is not a continuing fragment (it is an unfragmented message or the first
  fragment of a transfer), is parsed but dropped: the connection is left as it is, so the
  payload reaches neither the inbound handler nor a reassembly buffer, and the loop goes on
  with the message behind it. After a message with the reliable flag has been read, its
  number is in the set, so a number that was not in the set has been inserted. The theorem
  says nothing on continuing fragments.
\<close>

theorem ExtractMessages_duplicate_dropped:
  assumes "pos + 2 \<le> length bytes" and "hReliable (readMessageHeader env base bytes pos)"
  shows "let h = readMessageHeader env base bytes pos in
     (hReliableMessageNumber h \<in> receivedReliableMessages c
        \<and> (hFragmentStart h \<or> \<not> hFragment h)
        \<and> hContentLength h \<noteq> 0
        \<and> hPayloadPos h + hContentLength h \<le> length bytes
        \<and> (hFragmentStart h \<longrightarrow> hNumTotalFragments h \<noteq> VLEReadError \<and> 1 < hNumTotalFragments h)
      \<longrightarrow> extractMessage env pid base bytes pos c = Some (Next c (hPayloadPos h + hContentLength h) 0)
          \<and> extractLoop env pid base bytes pos c n =
              extractLoop env pid base bytes (hPayloadPos h + hContentLength h) c n)
     \<and> (\<forall>st. extractMessage env pid base bytes pos c = Some st
            \<longrightarrow> hReliableMessageNumber h \<in> receivedReliableMessages (stepState st))"
proof -
  let ?h = "readMessageHeader env base bytes pos"
  have "extractMessage env pid base bytes pos c = Some (Next c (hPayloadPos ?h + hContentLength ?h) 0)
          \<and> extractLoop env pid base bytes pos c n =
              extractLoop env pid base bytes (hPayloadPos ?h + hContentLength ?h) c n"
    if d: "hReliableMessageNumber ?h \<in> receivedReliableMessages c"
      "hFragmentStart ?h \<or> \<not> hFragment ?h" "hContentLength ?h \<noteq> 0"
      "hPayloadPos ?h + hContentLength ?h \<le> length bytes"
      "hFragmentStart ?h \<longrightarrow> hNumTotalFragments ?h \<noteq> VLEReadError \<and> 1 < hNumTotalFragments ?h"
  proof -
    have e: "extractMessage env pid base bytes pos c =
        Some (Next c (hPayloadPos ?h + hContentLength ?h) 0)"
      using assms d by (intro extractMessage_drops) simp_all
    have "pos < length bytes"
      using assms(1) by simp
    then have "extractLoop env pid base bytes pos c n =
        extractLoop env pid base bytes (hPayloadPos ?h + hContentLength ?h) c n"
      by (subst extractLoop.simps) (simp add: e)
    with e show ?thesis by simp
  qed
  moreover have "hReliableMessageNumber ?h \<in> receivedReliableMessages (stepState st)"
    if "extractMessage env pid base bytes pos c = Some st" for st
    using that assms by (rule extractMessage_inserts)
  ultimately show ?thesis
    unfolding Let_def by blast
qed

definition twoMessageDatagram :: "u8 list" where
  "twoMessageDatagram =
     [0x42, 0, 0, 7, 0, 0x02, 0x10, 0, 10, 0xAA, 0x02, 0x10, 1, 11, 0xBB]"

definition duplicateSample :: connection where
  "duplicateSample = (UDPMessageConnection sampleEnvironment ConnectionOK)
     \<lparr> receivedReliableMessages := {7} \<rparr>"

lemma twoMessageDatagram_headers:
  "readMessageHeader (sampleEnvironment\<lparr> now := t \<rparr>) 7 twoMessageDatagram 5 =
   \<lparr> hFragmentStart = False, hFragment = False, hInOrder = False, hReliable = True,
     hContentLength = 2, hReliableMessageNumber = 7, hNumTotalFragments = 0, hTransferID = 0,
     hFragmentNumber = 0, hPayloadPos = 8 \<rparr>"
  "readMessageHeader (sampleEnvironment\<lparr> now := t \<rparr>) 7 twoMessageDatagram 10 =
   \<lparr> hFragmentStart = False, hFragment = False, hInOrder = False, hReliable = True,
     hContentLength = 2, hReliableMessageNumber = 8, hNumTotalFragments = 0, hTransferID = 0,
     hFragmentNumber = 0, hPayloadPos = 13 \<rparr>"
  by (simp_all add: readMessageHeader_def twoMessageDatagram_def Let_def ReadU16_def
      sampleReadVLE8_16_def mask_eq_exp_minus_1)

lemma sample_HandleInboundMessage:
  "HandleInboundMessage (sampleEnvironment\<lparr> now := t \<rparr>) pid [11, 0xBB] c =
     Some (enqueueInbound 11 [0xBB] c)"
  by (simp add: HandleInboundMessage_def HandleMessage_def sampleReadVLE8_16_32_def
      VLEReadError_def sampleEnvironment_def Let_def)

theorem ExtractMessages_duplicate_dropped_witness:
  "extractMessage (sampleEnvironment\<lparr> now := 5 \<rparr>) 2 7 twoMessageDatagram 5 duplicateSample
     = Some (Next duplicateSample 10 0)
   \<and> extractLoop (sampleEnvironment\<lparr> now := 5 \<rparr>) 2 7 twoMessageDatagram 5 duplicateSample 0
     = extractLoop (sampleEnvironment\<lparr> now := 5 \<rparr>) 2 7 twoMessageDatagram 10 duplicateSample 0
   \<and> extractMessage (sampleEnvironment\<lparr> now := 5 \<rparr>) 2 7 twoMessageDatagram 10 duplicateSample
     = Some (Next (enqueueInbound 11 [0xBB] (duplicateSample\<lparr> receivedReliableMessages := {8, 7} \<rparr>)) 15 1)
   \<and> 8 \<in> receivedReliableMessages
         (enqueueInbound 11 [0xBB] (duplicateSample\<lparr> receivedReliableMessages := {8, 7} \<rparr>))"
proof -
  have l: "length twoMessageDatagram = 15"
    by (simp add: twoMessageDatagram_def)
  have r: "receivedReliableMessages duplicateSample = {7}"
    by (simp add: duplicateSample_def)
  have p: "take 2 (drop 13 twoMessageDatagram) = [11, 0xBB]"
    by (simp add: twoMessageDatagram_def)
  have second: "extractMessage (sampleEnvironment\<lparr> now := 5 \<rparr>) 2 7 twoMessageDatagram 10 duplicateSample
     = Some (Next (enqueueInbound 11 [0xBB] (duplicateSample\<lparr> receivedReliableMessages := {8, 7} \<rparr>)) 15 1)"
    by (simp add: extractMessage_def dispatchMessage_def twoMessageDatagram_headers l r p Let_def
        sample_HandleInboundMessage)
  from ExtractMessages_duplicate_dropped
    [of 5 twoMessageDatagram "sampleEnvironment\<lparr> now := 5 \<rparr>" 7 duplicateSample 2 0]
  have first: "extractMessage (sampleEnvironment\<lparr> now := 5 \<rparr>) 2 7 twoMessageDatagram 5 duplicateSample
       = Some (Next duplicateSample 10 0)
     \<and> extractLoop (sampleEnvironment\<lparr> now := 5 \<rparr>) 2 7 twoMessageDatagram 5 duplicateSample 0
       = extractLoop (sampleEnvironment\<lparr> now := 5 \<rparr>) 2 7 twoMessageDatagram 10 duplicateSample 0"
    by (simp add: twoMessageDatagram_headers l r Let_def)
  from ExtractMessages_duplicate_dropped
    [of 10 twoMessageDatagram "sampleEnvironment\<lparr> now := 5 \<rparr>" 7 duplicateSample 2 0]
  have "8 \<in> receivedReliableMessages
         (enqueueInbound 11 [0xBB] (duplicateSample\<lparr> receivedReliableMessages := {8, 7} \<rparr>))"
    by (simp add: twoMessageDatagram_headers l second Let_def)
  with first second show ?thesis
    by simp
qed

text \<open>
  A continuing fragment is not dropped. The first datagram (packet 1) carries the first
  fragment of transfer 1 with the reliable message number 7, which enters the set. The
  second datagram (packet 2) carries fragment 1 of the same transfer under the same
  number 7, as the sender numbers all fragments of one message alike: its payload is
  added to the reassembly buffer although 7 is in the set.
\<close>

definition fragmentStartDatagram :: "u8 list" where
  "fragmentStartDatagram = [0x41, 0, 0, 7, 0, 0x02, 0xD0, 0, 3, 1, 10, 0xAA]"

definition fragmentDatagram :: "u8 list" where
  "fragmentDatagram = [0x42, 0, 0, 7, 0, 0x01, 0x50, 0, 1, 1, 0xBB]"

definition roomySample :: connection where
  "roomySample = UDPMessageConnection sampleEnvironment ConnectionOK"

definition afterStartSample :: connection where
  "afterStartSample =
     AddInboundStats (sampleEnvironment\<lparr> now := 5 \<rparr>) 0 1 0
       (AddReceivedPacketIDStats 1
         (NewFragmentStartReceived 1 3 [10, 0xAA]
           ((rememberForAck (sampleEnvironment\<lparr> now := 5 \<rparr>) 1 (roomySample\<lparr> lastHeardTime := 5 \<rparr>))
              \<lparr> receivedReliableMessages := {7} \<rparr>)))"

lemma fragmentDatagram_headers:
  "readMessageHeader (sampleEnvironment\<lparr> now := t \<rparr>) 7 fragmentStartDatagram 5 =
   \<lparr> hFragmentStart = True, hFragment = True, hInOrder = False, hReliable = True,
     hContentLength = 2, hReliableMessageNumber = 7, hNumTotalFragments = 3, hTransferID = 1,
     hFragmentNumber = 0, hPayloadPos = 10 \<rparr>"
  "readMessageHeader (sampleEnvironment\<lparr> now := t \<rparr>) 7 fragmentDatagram 5 =
   \<lparr> hFragmentStart = False, hFragment = True, hInOrder = False, hReliable = True,
     hContentLength = 1, hReliableMessageNumber = 7, hNumTotalFragments = 0, hTransferID = 1,
     hFragmentNumber = 1, hPayloadPos = 10 \<rparr>"
  by (simp_all add: readMessageHeader_def fragmentStartDatagram_def fragmentDatagram_def Let_def
      ReadU16_def sampleReadVLE8_16_def sampleReadVLE8_16_32_def sampleReadU8_def
      mask_eq_exp_minus_1)

lemma fragmentDatagram_packets:
  "readPacketID fragmentStartDatagram = 1" "readPacketID fragmentDatagram = 2"
  "bit (fragmentStartDatagram ! 0) 6" "bit (fragmentDatagram ! 0) 6"
  "sampleReadVLE16_32 (drop 3 fragmentStartDatagram) = (7, 2)"
  "sampleReadVLE16_32 (drop 3 fragmentDatagram) = (7, 2)"
  "length fragmentStartDatagram = 12" "length fragmentDatagram = 11"
  "take 2 (drop 10 fragmentStartDatagram) = [10, 0xAA]"
  "take (Suc 0) (drop 10 fragmentDatagram) = [0xBB]"
  by (simp_all add: readPacketID_def fragmentStartDatagram_def fragmentDatagram_def ReadU16_def
      sampleReadVLE16_32_def)

lemma roomySample_fields:
  "inboundMessageQueue roomySample = []" "receivedPacketIDs roomySample = []"
  "receivedReliableMessages roomySample = {}" "fragmentedReceives roomySample = []"
  "inboundPacketAckTrack roomySample = []"
  by (simp_all add: roomySample_def UDPMessageConnection_def)

lemma afterStartSample_fields:
  "inboundMessageQueue afterStartSample = []" "receivedPacketIDs afterStartSample = [1]"
  "receivedReliableMessages afterStartSample = {7}"
  "fragmentedReceives afterStartSample =
     [\<lparr> rTransferID = 1, rTotalNumFragments = 3, rFragments = [(0, [10, 0xAA])] \<rparr>]"
  by (simp_all add: afterStartSample_def AddInboundStats_def AddReceivedPacketIDStats_def
      NewFragmentStartReceived_def rememberForAck_def roomySample_fields
      receivedPacketIDsCapacity_def)

lemma first_datagram:
  "ExtractMessages (sampleEnvironment\<lparr> now := 5 \<rparr>) fragmentStartDatagram roomySample
     = Some afterStartSample"
proof -
  let ?env = "sampleEnvironment\<lparr> now := 5 \<rparr>"
  let ?c2 = "rememberForAck ?env 1 (roomySample\<lparr> lastHeardTime := 5 \<rparr>)"
  have f: "receivedReliableMessages ?c2 = {}" "receivedPacketIDs ?c2 = []"
    by (simp_all add: rememberForAck_def roomySample_fields)
  have m: "extractMessage ?env 1 7 fragmentStartDatagram 5 ?c2 =
      Some (Next (NewFragmentStartReceived 1 3 [10, 0xAA] (?c2\<lparr> receivedReliableMessages := {7} \<rparr>)) 12 0)"
    by (simp add: extractMessage_def dispatchMessage_def fragmentDatagram_headers
        fragmentDatagram_packets f Let_def VLEReadError_def word_le_nat_alt)
  have l: "extractLoop ?env 1 7 fragmentStartDatagram 5 ?c2 0 =
      Some (NewFragmentStartReceived 1 3 [10, 0xAA] (?c2\<lparr> receivedReliableMessages := {7} \<rparr>), Some 0)"
    apply (subst extractLoop.simps)
    apply (simp add: m fragmentDatagram_packets)
    apply (subst extractLoop.simps)
    apply (simp add: fragmentDatagram_packets)
    done
  show ?thesis
    by (simp add: ExtractMessages_def CapacityLeft_def inboundMessageQueueCapacity_def
        roomySample_fields fragmentDatagram_packets Let_def HaveReceivedPacketID_def f l
        finishDatagram_def afterStartSample_def)
qed

theorem ExtractMessages_continuing_fragment_counterexample:
  "ExtractMessages (sampleEnvironment\<lparr> now := 5 \<rparr>) fragmentStartDatagram roomySample
     = Some afterStartSample
   \<and> 7 \<in> receivedReliableMessages afterStartSample
   \<and> hReliable (readMessageHeader (sampleEnvironment\<lparr> now := 9 \<rparr>) 7 fragmentDatagram 5)
   \<and> hReliableMessageNumber (readMessageHeader (sampleEnvironment\<lparr> now := 9 \<rparr>) 7 fragmentDatagram 5) = 7
   \<and> map rFragments (fragmentedReceives afterStartSample) = [[(0, [10, 0xAA])]]
   \<and> map_option (\<lambda>c. map rFragments (fragmentedReceives c))
        (ExtractMessages (sampleEnvironment\<lparr> now := 9 \<rparr>) fragmentDatagram afterStartSample)
       = Some [[(1, [0xBB]), (0, [10, 0xAA])]]"
proof -
  let ?env = "sampleEnvironment\<lparr> now := 9 \<rparr>"
  let ?c2 = "rememberForAck ?env 2 (afterStartSample\<lparr> lastHeardTime := 9 \<rparr>)"
  let ?c3 = "snd (NewFragmentReceived 1 1 [0xBB] ?c2)"
  have f: "receivedReliableMessages ?c2 = {7}" "receivedPacketIDs ?c2 = [1]"
    "fragmentedReceives ?c2 =
       [\<lparr> rTransferID = 1, rTotalNumFragments = 3, rFragments = [(0, [10, 0xAA])] \<rparr>]"
    by (simp_all add: rememberForAck_def afterStartSample_fields)
  have n: "\<not> fst (NewFragmentReceived 1 1 [0xBB] ?c2)"
    "fragmentedReceives ?c3 =
       [\<lparr> rTransferID = 1, rTotalNumFragments = 3, rFragments = [(1, [0xBB]), (0, [10, 0xAA])] \<rparr>]"
    by (simp_all add: NewFragmentReceived_def f addFragment_def)
  have m: "extractMessage ?env 2 7 fragmentDatagram 5 ?c2 = Some (Next ?c3 11 0)"
    by (simp add: extractMessage_def dispatchMessage_def receiveFragment_def
        fragmentDatagram_headers fragmentDatagram_packets f n Let_def VLEReadError_def)
  have l: "extractLoop ?env 2 7 fragmentDatagram 5 ?c2 0 = Some (?c3, Some 0)"
    apply (subst extractLoop.simps)
    apply (simp add: m fragmentDatagram_packets)
    apply (subst extractLoop.simps)
    apply (simp add: fragmentDatagram_packets)
    done
  have "ExtractMessages ?env fragmentDatagram afterStartSample =
      Some (AddInboundStats ?env 0 1 0 (AddReceivedPacketIDStats 2 ?c3))"
    by (simp add: ExtractMessages_def CapacityLeft_def inboundMessageQueueCapacity_def
        afterStartSample_fields fragmentDatagram_packets Let_def HaveReceivedPacketID_def f l
        finishDatagram_def)
  moreover have "fragmentedReceives (AddInboundStats ?env 0 1 0 (AddReceivedPacketIDStats 2 ?c3))
      = fragmentedReceives ?c3"
    by (simp add: AddInboundStats_def AddReceivedPacketIDStats_def)
  ultimately show ?thesis
    by (simp add: first_datagram afterStartSample_fields fragmentDatagram_headers n)
qed

section \<open>Sending a datagram\<close>

datatype PacketSendResult =
  PacketSendOK | PacketSendSocketClosed | PacketSendSocketFull | PacketSendNoMessages
  | PacketSendThrottled

definition GetTotalDatagramPackedSize :: "environment \<Rightarrow> connection \<Rightarrow> NetworkMessage \<Rightarrow> nat" where
  "GetTotalDatagramPackedSize env c m =
     (let idLength = (if transfer m = None \<or> fragmentIndex m = 0
                      then GetEncodedBitLength8_16_32 env (msgId m) div 8 else 0);
          headerLength = 2;
          contentLength = dataSize m;
          fragmentStartLength =
            (case transfer m of
               None \<Rightarrow> 0
             | Some t \<Rightarrow> if fragmentIndex m = 0
                         then GetEncodedBitLength8_16_32 env (of_nat (totalNumFragments (transfers c t))) div 8
                         else 0);
          fragmentLength = (if transfer m \<noteq> None then 1 else 0)
            + (if transfer m \<noteq> None \<and> fragmentIndex m \<noteq> 0
               then GetEncodedBitLength8_16_32 env (fragmentIndex m) div 8 else 0)
      in idLength + headerLength + contentLength + fragmentStartLength + fragmentLength)"

text \<open>
  The locals of SendOutPacket that the loop over the outbound queue carries along. The
  sizes are \<open>int\<close> and \<open>size_t\<close> in the source and natural numbers here: they are bounded by
  the size of one datagram.
\<close>

record datagramPlan =
  planReliable :: bool
  planInOrder :: bool
  packetSizeInBytes :: nat
  smallestReliableMessageNumber :: u32

definition initialPlan :: datagramPlan where
  "initialPlan = \<lparr> planReliable = False, planInOrder = False, packetSizeInBytes = 3,
     smallestReliableMessageNumber = 0xFFFFFFFF \<rparr>"

text \<open>
  One iteration of \<open>while(outboundQueue.Size() > 0)\<close>: \<open>Stop\<close> is the \<open>break\<close>, \<open>Go\<close> the
  end of the body or a \<open>continue\<close>.
\<close>

datatype selectStep = Stop connection | Go connection datagramPlan

definition allocateTransferID :: "NetworkMessage \<Rightarrow> connection \<Rightarrow> bool \<times> connection" where
  "allocateTransferID m c =
     (case transfer m of
        None \<Rightarrow> (True, c)
      | Some t \<Rightarrow> if transferId (transfers c t) = - 1 then AllocateFragmentedTransferID t c
                  else (True, c))"

definition planMessage :: "NetworkMessage \<Rightarrow> nat \<Rightarrow> datagramPlan \<Rightarrow> datagramPlan" where
  "planMessage m totalMessageSize pl =
     pl\<lparr> packetSizeInBytes := packetSizeInBytes pl + totalMessageSize,
         planReliable := (planReliable pl \<or> reliable m),
         smallestReliableMessageNumber :=
           (if reliable m then min (smallestReliableMessageNumber pl) (reliableMessageNumber m)
            else smallestReliableMessageNumber pl),
         planInOrder := (planInOrder pl \<or> inOrder m) \<rparr>"

definition selectMessage :: "environment \<Rightarrow> nat \<Rightarrow> connection \<Rightarrow> datagramPlan \<Rightarrow> selectStep" where
  "selectMessage env maxSendSize c pl =
     (let msg = hd (outboundQueue c);
          m = messages c msg
      in if obsolete m
         then Go (FreeMessage msg (c\<lparr> outboundQueue := tl (outboundQueue c) \<rparr>)) pl
         else (let r = allocateTransferID m c;
                   c1 = snd r
               in if \<not> fst r
                  then Go (c1\<lparr> outboundQueue := tl (outboundQueue c1),
                               skippedMessages := skippedMessages c1 @ [msg] \<rparr>) pl
                  else (let totalMessageSize = GetTotalDatagramPackedSize env c1 m
                              + (if inOrder m \<and> \<not> planInOrder pl then 2 else 0)
                        in if packetSizeInBytes pl \<ge> 1
                              \<and> packetSizeInBytes pl + totalMessageSize \<ge> maxSendSize
                           then Stop c1
                           else Go (c1\<lparr> datagramSerializedMessages :=
                                          datagramSerializedMessages c1 @ [msg],
                                        outboundQueue := tl (outboundQueue c1) \<rparr>)
                                  (planMessage m totalMessageSize pl))))"

lemma allocateTransferID_outboundQueue [simp]:
  "outboundQueue (snd (allocateTransferID m c)) = outboundQueue c"
  by (simp add: allocateTransferID_def AllocateFragmentedTransferID_def
      split: option.splits list.splits)

lemma selectMessage_pops:
  "selectMessage env mx c pl = Go c' pl' \<Longrightarrow> outboundQueue c' = tl (outboundQueue c)"
  by (auto simp: selectMessage_def Let_def FreeMessage_def split: if_splits)

function selectLoop :: "environment \<Rightarrow> nat \<Rightarrow> connection \<Rightarrow> datagramPlan \<Rightarrow> connection \<times> datagramPlan" where
  "selectLoop env maxSendSize c pl =
     (if outboundQueue c = [] then (c, pl)
      else (case selectMessage env maxSendSize c pl of
              Stop c' \<Rightarrow> (c', pl)
            | Go c' pl' \<Rightarrow> selectLoop env maxSendSize c' pl'))"
  by pat_completeness auto
termination
  by (relation "measure (\<lambda>(env, mx, c, pl). length (outboundQueue c))")
    (auto dest: selectMessage_pops)

declare selectLoop.simps [simp del]

definition requeueSkipped :: "connection \<Rightarrow> connection" where
  "requeueSkipped c =
     c\<lparr> outboundQueue := fold (queueInsert (messages c)) (skippedMessages c) (outboundQueue c) \<rparr>"

definition requeueSerialized :: "connection \<Rightarrow> connection" where
  "requeueSerialized c =
     c\<lparr> outboundQueue :=
          fold (queueInsert (messages c)) (datagramSerializedMessages c) (outboundQueue c) \<rparr>"

text \<open>
  The bytes of the datagram. The capacity of the send buffer is not modelled: the loop
  above keeps the datagram below \<open>MaxSendSize\<close>.
\<close>

definition serializeMessage :: "environment \<Rightarrow> connection \<Rightarrow> u32 \<Rightarrow> msg_ptr \<Rightarrow> u8 list" where
  "serializeMessage env c smallest p =
     (let m = messages c p;
          withId = (transfer m = None \<or> fragmentIndex m = 0);
          encodedMsgIdLength = (if withId then GetEncodedBitLength8_16_32 env (msgId m) div 8 else 0);
          messageContentSize = dataSize m + encodedMsgIdLength;
          reliableBit = (if reliable m then push_bit 12 1 else 0 :: u16);
          inOrderBit = (if inOrder m then push_bit 13 1 else 0 :: u16);
          fragmentedTransfer = (if transfer m \<noteq> None then push_bit 14 1 else 0 :: u16);
          firstFragment = (if transfer m \<noteq> None \<and> fragmentIndex m = 0 then push_bit 15 1 else 0 :: u16)
      in AddU16 (of_nat messageContentSize OR reliableBit OR inOrderBit OR fragmentedTransfer
                   OR firstFragment)
         @ (if reliable m then AddVLE8_16 env (reliableMessageNumber m - smallest) else [])
         @ (case transfer m of
              None \<Rightarrow> []
            | Some t \<Rightarrow>
                (if firstFragment \<noteq> 0
                 then AddVLE8_16_32 env (of_nat (totalNumFragments (transfers c t))) else [])
                @ [word_of_int (transferId (transfers c t))]
                @ (if firstFragment = 0 then AddVLE8_16_32 env (fragmentIndex m) else []))
         @ (if withId then AddVLE8_16_32 env (msgId m) else [])
         @ (if dataSize m > 0 then take (dataSize m) (data m) else []))"

definition serializeDatagram :: "environment \<Rightarrow> connection \<Rightarrow> datagramPlan \<Rightarrow> u8 list" where
  "serializeDatagram env c pl =
     (let pid = datagramPacketIDCounter c
      in [ucast (pid AND 63) OR (if planReliable pl then push_bit 6 1 else 0)
            OR (if planInOrder pl then push_bit 7 1 else 0)]
         @ AddU16 (ucast (drop_bit 6 pid))
         @ (if planReliable pl then AddVLE16_32 env (smallestReliableMessageNumber pl) else [])
         @ concat (map (serializeMessage env c (smallestReliableMessageNumber pl))
                     (datagramSerializedMessages c)))"

text \<open>
  The block \<open>if (reliable)\<close> after a successful send: the reliable messages of the
  datagram go into a new PacketAckTrack, the others are freed.
\<close>

definition trackDatagram :: "environment \<Rightarrow> packet_id_t \<Rightarrow> connection \<Rightarrow> connection" where
  "trackDatagram env pid c =
     (let ack = \<lparr> packetID = pid, sentTick = now env,
                  timeoutTick = now env
                    + of_nat (nat \<lfloor>retransmissionTimeout c * TicksPerMillisecond env\<rfloor>),
                  trackSendCount = 1, trackDatagramSendRate = datagramSendRate c,
                  trackMessages = filter (\<lambda>p. reliable (messages c p)) (datagramSerializedMessages c) \<rparr>;
          c1 = fold FreeMessage
                 (filter (\<lambda>p. \<not> reliable (messages c p)) (datagramSerializedMessages c)) c
      in c1\<lparr> outboundPacketAckTrack := outboundPacketAckTrack c1 @ [ack] \<rparr>)"

definition countSends :: "connection \<Rightarrow> connection" where
  "countSends c =
     fold (\<lambda>p. updMsg p (\<lambda>m. m\<lparr> sendCount := sendCount m + 1 \<rparr>)) (datagramSerializedMessages c) c"

text \<open>The part of SendOutPacket behind a successful \<open>EndSend\<close>.\<close>

definition datagramSent :: "environment \<Rightarrow> datagramPlan \<Rightarrow> nat \<Rightarrow> connection \<Rightarrow> connection option" where
  "datagramSent env pl bytesFilled c =
     (let pid = datagramPacketIDCounter c
      in case NewDatagramSent env (countSends c) of
           None \<Rightarrow> None
         | Some c2 \<Rightarrow>
             (let c3 = c2\<lparr> lastSentInOrderPacketID := datagramPacketIDCounter c2,
                           datagramPacketIDCounter := AddPacketID (datagramPacketIDCounter c2) 1 \<rparr>;
                  c4 = AddOutboundStats env bytesFilled 1 (length (datagramSerializedMessages c3)) c3;
                  c5 = (if planReliable pl then trackDatagram env pid c4
                        else fold FreeMessage (datagramSerializedMessages c4) c4)
              in Some (if list_ex (\<lambda>p. msgId (messages c p) = MsgIdDisconnectAck env)
                            (datagramSerializedMessages c)
                       then c5\<lparr> connectionState := ConnectionClosed \<rparr> else c5)))"

definition SendOutPacket :: "environment \<Rightarrow> connection \<Rightarrow> (PacketSendResult \<times> connection) option" where
  "SendOutPacket env c =
     (if \<not> socketExists env \<or> \<not> socketIsWriteOpen env then Some (PacketSendSocketClosed, c)
      else if bOutboundSendsPaused c then Some (PacketSendNoMessages, c)
      else if outboundQueue c = [] then Some (PacketSendNoMessages, c)
      else if \<not> CanSendOutNewDatagram env c then Some (PacketSendThrottled, c)
      else if \<not> socketBeginSend env then Some (PacketSendThrottled, c)
      else (let r = selectLoop env (MaxSendSize env)
                      (c\<lparr> datagramSerializedMessages := [], skippedMessages := [] \<rparr>) initialPlan;
                c1 = requeueSkipped (fst r);
                bytes = serializeDatagram env c1 (snd r)
            in if \<not> socketEndSend env then Some (PacketSendSocketFull, requeueSerialized c1)
               else map_option (Pair PacketSendOK) (datagramSent env (snd r) (length bytes) c1)))"

section \<open>What a send leaves behind\<close>

text \<open>The fields that the loop over the outbound queue does not write.\<close>

definition pacingState :: "connection \<Rightarrow>
    (msg_ptr \<Rightarrow> NetworkMessage) \<times> packet_id_t \<times> PacketAckTrack list \<times> tick_t \<times> real \<times> real" where
  "pacingState c = (messages c, datagramPacketIDCounter c, outboundPacketAckTrack c,
     lastDatagramSendTime c, datagramSendRate c, retransmissionTimeout c)"

lemma allocateTransferID_frame [simp]:
  "pacingState (snd (allocateTransferID m c)) = pacingState c"
  "datagramSerializedMessages (snd (allocateTransferID m c)) = datagramSerializedMessages c"
  by (simp_all add: allocateTransferID_def AllocateFragmentedTransferID_def pacingState_def
      split: option.splits list.splits)

lemma selectMessage_Stop:
  assumes "selectMessage env mx c pl = Stop c'"
  shows "pacingState c' = pacingState c \<and> outboundQueue c' = outboundQueue c
    \<and> datagramSerializedMessages c' = datagramSerializedMessages c"
  using assms by (auto simp: selectMessage_def Let_def split: if_splits)

lemma selectMessage_Go:
  assumes "selectMessage env mx c pl = Go c' pl'"
  shows "pacingState c' = pacingState c \<and> outboundQueue c' = tl (outboundQueue c)
    \<and> (datagramSerializedMessages c' = datagramSerializedMessages c \<and> pl' = pl
       \<or> datagramSerializedMessages c' = datagramSerializedMessages c @ [hd (outboundQueue c)]
         \<and> planReliable pl' = (planReliable pl \<or> reliable (messages c (hd (outboundQueue c)))))"
proof (cases "obsolete (messages c (hd (outboundQueue c)))")
  case True
  then show ?thesis
    using assms by (auto simp: selectMessage_def Let_def FreeMessage_def pacingState_def)
next
  case False
  let ?r = "allocateTransferID (messages c (hd (outboundQueue c))) c"
  show ?thesis
  proof (cases "fst ?r")
    case f: False
    have "c' = (snd ?r)\<lparr> outboundQueue := tl (outboundQueue (snd ?r)),
        skippedMessages := skippedMessages (snd ?r) @ [hd (outboundQueue c)] \<rparr>" "pl' = pl"
      using assms False f by (simp_all add: selectMessage_def Let_def)
    moreover have "pacingState ((snd ?r)\<lparr> outboundQueue := q, skippedMessages := k \<rparr>)
        = pacingState (snd ?r)" for q k
      by (simp add: pacingState_def)
    ultimately show ?thesis
      by simp
  next
    case t: True
    have "pacingState ((snd ?r)\<lparr> datagramSerializedMessages := d, outboundQueue := q \<rparr>)
        = pacingState (snd ?r)" for q d
      by (simp add: pacingState_def)
    then show ?thesis
      using assms False t
      by (auto simp: selectMessage_def Let_def planMessage_def split: if_splits)
  qed
qed

lemma selectLoop_invariant:
  assumes "distinct (datagramSerializedMessages c @ outboundQueue c)"
    and "planReliable pl = list_ex (\<lambda>p. reliable (messages c p)) (datagramSerializedMessages c)"
  shows "pacingState (fst (selectLoop env mx c pl)) = pacingState c
    \<and> distinct (datagramSerializedMessages (fst (selectLoop env mx c pl))
                @ outboundQueue (fst (selectLoop env mx c pl)))
    \<and> set (datagramSerializedMessages (fst (selectLoop env mx c pl)))
        \<subseteq> set (datagramSerializedMessages c) \<union> set (outboundQueue c)
    \<and> planReliable (snd (selectLoop env mx c pl))
        = list_ex (\<lambda>p. reliable (messages c p))
            (datagramSerializedMessages (fst (selectLoop env mx c pl)))"
  using assms
proof (induction env mx c pl rule: selectLoop.induct)
  case (1 env mx c pl)
  show ?case
  proof (cases "outboundQueue c = []")
    case True
    then show ?thesis
      using "1.prems" by (subst (1 2 3 4 5 6) selectLoop.simps) simp
  next
    case False
    then obtain x xs where q: "outboundQueue c = x # xs"
      by (cases "outboundQueue c") auto
    show ?thesis
    proof (cases "selectMessage env mx c pl")
      case (Stop c')
      from selectMessage_Stop [OF Stop] show ?thesis
        using "1.prems" False Stop by (subst (1 2 3 4 5 6) selectLoop.simps) simp
    next
      case (Go c' pl')
      note g = selectMessage_Go [OF Go]
      have m: "messages c' = messages c"
        using g by (simp add: pacingState_def)
      have d: "distinct (datagramSerializedMessages c' @ outboundQueue c')"
        using g "1.prems"(1) q by auto
      have r: "planReliable pl' =
          list_ex (\<lambda>p. reliable (messages c' p)) (datagramSerializedMessages c')"
        using g "1.prems"(2) q m by (auto simp: list_ex_iff)
      have s: "set (datagramSerializedMessages c') \<union> set (outboundQueue c')
          \<subseteq> set (datagramSerializedMessages c) \<union> set (outboundQueue c)"
        using g q by auto
      from "1.IH" [OF False Go d r] have
        "pacingState (fst (selectLoop env mx c' pl')) = pacingState c
         \<and> distinct (datagramSerializedMessages (fst (selectLoop env mx c' pl'))
                @ outboundQueue (fst (selectLoop env mx c' pl')))
         \<and> set (datagramSerializedMessages (fst (selectLoop env mx c' pl')))
            \<subseteq> set (datagramSerializedMessages c) \<union> set (outboundQueue c)
         \<and> planReliable (snd (selectLoop env mx c' pl'))
            = list_ex (\<lambda>p. reliable (messages c p))
                (datagramSerializedMessages (fst (selectLoop env mx c' pl')))"
        using g s m by auto
      moreover have "selectLoop env mx c pl = selectLoop env mx c' pl'"
        using False Go by (subst selectLoop.simps) simp
      ultimately show ?thesis
        by simp
    qed
  qed
qed

lemma fold_updMsg:
  "fold (\<lambda>p. updMsg p f) xs c = c\<lparr> messages := fold (\<lambda>p ms. ms(p := f (ms p))) xs (messages c) \<rparr>"
  by (induction xs arbitrary: c) (simp_all add: updMsg_def)

lemma fold_update_distinct:
  "distinct xs \<Longrightarrow>
   fold (\<lambda>p ms. ms(p := f (ms p))) xs ms p = (if p \<in> set xs then f (ms p) else ms p)"
  by (induction xs arbitrary: ms) auto

lemma fold_FreeMessage: "fold FreeMessage xs c = c\<lparr> poolFreed := rev xs @ poolFreed c \<rparr>"
  by (induction xs arbitrary: c) (simp_all add: FreeMessage_def)

lemma fold_queueInsert_set [simp]: "set (fold (queueInsert ms) xs q) = set xs \<union> set q"
  by (induction xs arbitrary: q) auto

lemma countSends_messages:
  assumes "distinct (datagramSerializedMessages c)"
  shows "countSends c = c\<lparr> messages := (\<lambda>p. if p \<in> set (datagramSerializedMessages c)
      then (messages c p)\<lparr> sendCount := sendCount (messages c p) + 1 \<rparr> else messages c p) \<rparr>"
proof -
  have "fold (\<lambda>p ms. ms(p := (ms p)\<lparr> sendCount := sendCount (ms p) + 1 \<rparr>))
      (datagramSerializedMessages c) (messages c)
    = (\<lambda>p. if p \<in> set (datagramSerializedMessages c)
      then (messages c p)\<lparr> sendCount := sendCount (messages c p) + 1 \<rparr> else messages c p)"
    using fold_update_distinct [OF assms, of "\<lambda>m. m\<lparr> sendCount := sendCount m + 1 \<rparr>" "messages c"]
    by (intro ext) simp
  then show ?thesis
    by (simp add: countSends_def fold_updMsg)
qed

text \<open>The PacketAckTrack that a reliable datagram with packet id \<open>pid\<close> leaves behind.\<close>

definition datagramTrack :: "environment \<Rightarrow> connection \<Rightarrow> msg_ptr list \<Rightarrow> PacketAckTrack" where
  "datagramTrack env c sent =
     \<lparr> packetID = datagramPacketIDCounter c, sentTick = now env,
       timeoutTick = now env + of_nat (nat \<lfloor>retransmissionTimeout c * TicksPerMillisecond env\<rfloor>),
       trackSendCount = 1, trackDatagramSendRate = datagramSendRate c,
       trackMessages = filter (\<lambda>p. reliable (messages c p)) sent \<rparr>"

lemma datagramSent_result:
  assumes "0 < datagramSendRate c" and "datagramSendTickDelay env c \<noteq> 0"
    and "distinct (datagramSerializedMessages c)"
  shows "\<exists>c'. datagramSent env pl n c = Some c'
    \<and> datagramSerializedMessages c' = datagramSerializedMessages c
    \<and> messages c' = (\<lambda>p. if p \<in> set (datagramSerializedMessages c)
         then (messages c p)\<lparr> sendCount := sendCount (messages c p) + 1 \<rparr> else messages c p)
    \<and> lastDatagramSendTime c' =
        (if TicksInBetween (now env) (lastDatagramSendTime c) div datagramSendTickDelay env c < 20
         then lastDatagramSendTime c + datagramSendTickDelay env c else now env)
    \<and> datagramPacketIDCounter c' = AddPacketID (datagramPacketIDCounter c) 1
    \<and> outboundPacketAckTrack c' = outboundPacketAckTrack c
         @ (if planReliable pl then [datagramTrack env c (datagramSerializedMessages c)] else [])"
proof -
  let ?M = "\<lambda>p. if p \<in> set (datagramSerializedMessages c)
         then (messages c p)\<lparr> sendCount := sendCount (messages c p) + 1 \<rparr> else messages c p"
  have cs: "countSends c = c\<lparr> messages := ?M \<rparr>"
    by (rule countSends_messages [OF assms(3)])
  have d: "datagramSendTickDelay env (c\<lparr> messages := ?M \<rparr>) = datagramSendTickDelay env c"
    by (simp add: datagramSendTickDelay_def)
  have f: "filter (\<lambda>p. reliable (?M p)) xs = filter (\<lambda>p. reliable (messages c p)) xs" for xs
    by (rule filter_cong) auto
  have g: "filter (\<lambda>p. \<not> reliable (?M p)) xs = filter (\<lambda>p. \<not> reliable (messages c p)) xs" for xs
    by (rule filter_cong) auto
  obtain c2 where n: "NewDatagramSent env (countSends c) = Some c2"
    and c2: "c2 = c\<lparr> messages := ?M, lastDatagramSendTime :=
        (if TicksInBetween (now env) (lastDatagramSendTime c) div datagramSendTickDelay env c < 20
         then lastDatagramSendTime c + datagramSendTickDelay env c else now env) \<rparr>"
    using assms(1,2) by (simp add: cs NewDatagramSent_def d)
  show ?thesis
    unfolding datagramSent_def n
    by (simp add: c2 Let_def AddOutboundStats_def trackDatagram_def fold_FreeMessage
        datagramTrack_def f g)
qed

lemma datagramTrack_cong:
  "pacingState c1 = pacingState c \<Longrightarrow> datagramTrack env c1 sent = datagramTrack env c sent"
  by (simp add: pacingState_def datagramTrack_def)

lemma requeueSkipped_frame [simp]:
  "pacingState (requeueSkipped c) = pacingState c"
  "datagramSerializedMessages (requeueSkipped c) = datagramSerializedMessages c"
  by (simp_all add: requeueSkipped_def pacingState_def)

text \<open>
  Claim C2. SendOutPacket is called with an open socket, sends not paused, a non-empty
  outbound queue that holds every message once, the pacing tick reached, a free send
  buffer and a positive send rate, so that it gets as far as the socket send. The
  messages serialized into the datagram are those the loop over the outbound queue chose;
  they come from the outbound queue. If the socket send fails, the call returns
  PacketSendSocketFull, every serialized message is in the outbound queue again, no
  message is changed (no sendCount is incremented), and the packet id counter, the
  PacketAckTracks and the pacing tick are as before. If the send succeeds, the call returns
  PacketSendOK, the sendCount of each serialized message is one higher and other messages
  are as before, the pacing tick is advanced as NewDatagramSent does it, the packet id
  counter is advanced by one (within 22 bits), and one PacketAckTrack for the datagram,
  with the old packet id and the reliable messages of the datagram, is appended if one
  of the serialized messages is reliable, and none otherwise.
\<close>

theorem SendOutPacket_bookkeeping:
  assumes "socketExists env" and "socketIsWriteOpen env" and "\<not> bOutboundSendsPaused c"
    and "outboundQueue c \<noteq> []" and "CanSendOutNewDatagram env c" and "socketBeginSend env"
    and "0 < datagramSendRate c" and "datagramSendTickDelay env c \<noteq> 0"
    and "distinct (outboundQueue c)"
  shows "\<exists>c'. SendOutPacket env c
        = Some (if socketEndSend env then PacketSendOK else PacketSendSocketFull, c')
    \<and> datagramSerializedMessages c' = datagramSerializedMessages (fst (selectLoop env (MaxSendSize env)
          (c\<lparr> datagramSerializedMessages := [], skippedMessages := [] \<rparr>) initialPlan))
    \<and> set (datagramSerializedMessages c') \<subseteq> set (outboundQueue c)
    \<and> (if socketEndSend env
       then messages c' = (\<lambda>p. if p \<in> set (datagramSerializedMessages c')
                then (messages c p)\<lparr> sendCount := sendCount (messages c p) + 1 \<rparr>
                else messages c p)
          \<and> lastDatagramSendTime c' =
              (if TicksInBetween (now env) (lastDatagramSendTime c) div datagramSendTickDelay env c < 20
               then lastDatagramSendTime c + datagramSendTickDelay env c else now env)
          \<and> datagramPacketIDCounter c' = AddPacketID (datagramPacketIDCounter c) 1
          \<and> outboundPacketAckTrack c' = outboundPacketAckTrack c
               @ (if list_ex (\<lambda>p. reliable (messages c p)) (datagramSerializedMessages c')
                  then [datagramTrack env c (datagramSerializedMessages c')] else [])
       else set (datagramSerializedMessages c') \<subseteq> set (outboundQueue c')
          \<and> messages c' = messages c
          \<and> lastDatagramSendTime c' = lastDatagramSendTime c
          \<and> datagramPacketIDCounter c' = datagramPacketIDCounter c
          \<and> outboundPacketAckTrack c' = outboundPacketAckTrack c)"
proof -
  let ?c0 = "c\<lparr> datagramSerializedMessages := [], skippedMessages := [] \<rparr>"
  let ?r = "selectLoop env (MaxSendSize env) ?c0 initialPlan"
  let ?c1 = "requeueSkipped (fst ?r)"
  let ?S = "datagramSerializedMessages (fst ?r)"
  have p0: "pacingState ?c0 = pacingState c"
    by (simp add: pacingState_def)
  have "distinct (datagramSerializedMessages ?c0 @ outboundQueue ?c0)"
    "planReliable initialPlan
      = list_ex (\<lambda>p. reliable (messages ?c0 p)) (datagramSerializedMessages ?c0)"
    using assms(9) by (simp_all add: initialPlan_def)
  from selectLoop_invariant [OF this, of env "MaxSendSize env"]
  have inv: "pacingState (fst ?r) = pacingState c" "distinct ?S" "set ?S \<subseteq> set (outboundQueue c)"
    "planReliable (snd ?r) = list_ex (\<lambda>p. reliable (messages c p)) ?S"
    by (simp_all add: p0)
  have p1: "pacingState ?c1 = pacingState c"
    by (simp add: inv(1))
  then have f1: "messages ?c1 = messages c" "lastDatagramSendTime ?c1 = lastDatagramSendTime c"
    "datagramPacketIDCounter ?c1 = datagramPacketIDCounter c"
    "outboundPacketAckTrack ?c1 = outboundPacketAckTrack c"
    "datagramSendRate ?c1 = datagramSendRate c"
    by (simp_all add: pacingState_def)
  have s: "SendOutPacket env c =
      (if \<not> socketEndSend env then Some (PacketSendSocketFull, requeueSerialized ?c1)
       else map_option (Pair PacketSendOK)
              (datagramSent env (snd ?r) (length (serializeDatagram env ?c1 (snd ?r))) ?c1))"
    using assms(1-6) by (simp add: SendOutPacket_def Let_def)
  show ?thesis
  proof (cases "socketEndSend env")
    case False
    have "set (datagramSerializedMessages (requeueSerialized ?c1))
        \<subseteq> set (outboundQueue (requeueSerialized ?c1))"
      by (simp add: requeueSerialized_def)
    moreover have "datagramSerializedMessages (requeueSerialized ?c1) = ?S"
      "messages (requeueSerialized ?c1) = messages c"
      "lastDatagramSendTime (requeueSerialized ?c1) = lastDatagramSendTime c"
      "datagramPacketIDCounter (requeueSerialized ?c1) = datagramPacketIDCounter c"
      "outboundPacketAckTrack (requeueSerialized ?c1) = outboundPacketAckTrack c"
      using f1 by (simp_all add: requeueSerialized_def)
    ultimately show ?thesis
      using False inv(3) by (simp add: s)
  next
    case True
    have d: "datagramSendTickDelay env ?c1 = datagramSendTickDelay env c"
      by (simp add: datagramSendTickDelay_def f1)
    have "0 < datagramSendRate ?c1" "datagramSendTickDelay env ?c1 \<noteq> 0"
      "distinct (datagramSerializedMessages ?c1)"
      using assms(7,8) inv(2) by (simp_all add: d f1)
    from datagramSent_result [OF this, of "snd ?r" "length (serializeDatagram env ?c1 (snd ?r))"]
    have "\<exists>c'. datagramSent env (snd ?r) (length (serializeDatagram env ?c1 (snd ?r))) ?c1
          = Some c'
      \<and> datagramSerializedMessages c' = ?S
      \<and> messages c' = (\<lambda>p. if p \<in> set ?S
         then (messages c p)\<lparr> sendCount := sendCount (messages c p) + 1 \<rparr> else messages c p)
      \<and> lastDatagramSendTime c' =
        (if TicksInBetween (now env) (lastDatagramSendTime c) div datagramSendTickDelay env c < 20
         then lastDatagramSendTime c + datagramSendTickDelay env c else now env)
      \<and> datagramPacketIDCounter c' = AddPacketID (datagramPacketIDCounter c) 1
      \<and> outboundPacketAckTrack c' = outboundPacketAckTrack c
         @ (if planReliable (snd ?r) then [datagramTrack env c ?S] else [])"
      by (simp add: d f1 datagramTrack_cong [OF p1] cong del: if_weak_cong)
    then obtain c' where c': "datagramSent env (snd ?r) (length (serializeDatagram env ?c1 (snd ?r))) ?c1
          = Some c'"
      "datagramSerializedMessages c' = ?S"
      "messages c' = (\<lambda>p. if p \<in> set ?S
         then (messages c p)\<lparr> sendCount := sendCount (messages c p) + 1 \<rparr> else messages c p)"
      "lastDatagramSendTime c' =
        (if TicksInBetween (now env) (lastDatagramSendTime c) div datagramSendTickDelay env c < 20
         then lastDatagramSendTime c + datagramSendTickDelay env c else now env)"
      "datagramPacketIDCounter c' = AddPacketID (datagramPacketIDCounter c) 1"
      "outboundPacketAckTrack c' = outboundPacketAckTrack c
         @ (if planReliable (snd ?r) then [datagramTrack env c ?S] else [])"
      by blast
    show ?thesis
      using True inv(3,4) c' by (simp add: s)
  qed
qed

definition sendSample :: connection where
  "sendSample = pacingSample
     \<lparr> messages := (\<lambda>p. if p = 0
          then emptyMessage\<lparr> msgId := 10, reliable := True, reliableMessageNumber := 4,
                 data := [0xAA], dataSize := 1 \<rparr>
          else emptyMessage\<lparr> msgId := 11, data := [0xBB], dataSize := 1 \<rparr>),
       poolNext := 2, outboundQueue := [0, 1] \<rparr>"

lemma sendSample_fields:
  "\<not> bOutboundSendsPaused sendSample" "outboundQueue sendSample = [0, 1]"
  "0 < datagramSendRate sendSample" "lastDatagramSendTime sendSample = 0"
  "datagramPacketIDCounter sendSample = 0" "outboundPacketAckTrack sendSample = []"
  "retransmissionTimeout sendSample = 3" "datagramSendRate sendSample = 70"
  by (simp_all add: sendSample_def pacingSample_def Initialize_def UDPMessageConnection_def
      sampleEnvironment_def)

lemma sendSample_messages:
  "sendCount (messages sendSample p) = 0" "reliable (messages sendSample p) = (p = 0)"
  by (simp_all add: sendSample_def emptyMessage_def)

lemma sendSample_delay:
  "datagramSendTickDelay (sampleEnvironment\<lparr> now := t, socketEndSend := b \<rparr>) sendSample = 14"
  by (simp add: datagramSendTickDelay_def sendSample_fields sampleEnvironment_def)

lemma sendSample_environment:
  "socketExists (sampleEnvironment\<lparr> now := t, socketEndSend := b \<rparr>)"
  "socketIsWriteOpen (sampleEnvironment\<lparr> now := t, socketEndSend := b \<rparr>)"
  "socketBeginSend (sampleEnvironment\<lparr> now := t, socketEndSend := b \<rparr>)"
  "MaxSendSize (sampleEnvironment\<lparr> now := t, socketEndSend := b \<rparr>) = 1400"
  "GetEncodedBitLength8_16_32 (sampleEnvironment\<lparr> now := t, socketEndSend := b \<rparr>)
     = sampleGetEncodedBitLength8_16_32"
  by (simp_all add: sampleEnvironment_def)

lemma sendSample_selected:
  "datagramSerializedMessages (fst (selectLoop (sampleEnvironment\<lparr> now := t, socketEndSend := b \<rparr>) 1400
       (sendSample\<lparr> datagramSerializedMessages := [], skippedMessages := [] \<rparr>) initialPlan))
     = [0, 1]"
  apply (subst selectLoop.simps)
  apply (simp add: selectMessage_def Let_def sendSample_def allocateTransferID_def emptyMessage_def
      GetTotalDatagramPackedSize_def sendSample_environment sampleGetEncodedBitLength8_16_32_def
      planMessage_def initialPlan_def)
  apply (subst selectLoop.simps)
  apply (simp add: selectMessage_def Let_def allocateTransferID_def emptyMessage_def
      GetTotalDatagramPackedSize_def sendSample_environment sampleGetEncodedBitLength8_16_32_def
      planMessage_def)
  apply (subst selectLoop.simps)
  apply simp
  done

theorem SendOutPacket_bookkeeping_witness:
  "(\<exists>c'. SendOutPacket (sampleEnvironment\<lparr> now := 100, socketEndSend := True \<rparr>) sendSample
          = Some (PacketSendOK, c')
      \<and> datagramSerializedMessages c' = [0, 1]
      \<and> map (\<lambda>p. sendCount (messages c' p)) [0, 1, 2] = [1, 1, 0]
      \<and> lastDatagramSendTime c' = 14
      \<and> datagramPacketIDCounter c' = 1
      \<and> map packetID (outboundPacketAckTrack c') = [0]
      \<and> map trackMessages (outboundPacketAckTrack c') = [[0]])
   \<and> (\<exists>c'. SendOutPacket (sampleEnvironment\<lparr> now := 100, socketEndSend := False \<rparr>) sendSample
          = Some (PacketSendSocketFull, c')
      \<and> datagramSerializedMessages c' = [0, 1]
      \<and> 0 \<in> set (outboundQueue c') \<and> 1 \<in> set (outboundQueue c')
      \<and> map (\<lambda>p. sendCount (messages c' p)) [0, 1, 2] = [0, 0, 0]
      \<and> lastDatagramSendTime c' = 0
      \<and> datagramPacketIDCounter c' = 0
      \<and> outboundPacketAckTrack c' = [])"
proof -
  have can: "CanSendOutNewDatagram (sampleEnvironment\<lparr> now := 100, socketEndSend := b \<rparr>) sendSample"
    for b
    by (simp add: CanSendOutNewDatagram_def sendSample_delay TicksInBetween_def sendSample_fields)
  have slots: "TicksInBetween 100 0 div 14 < (20 :: tick_t)"
    by (simp add: TicksInBetween_def)
  have one: "AddPacketID 0 (Suc 0) = 1"
    by (simp add: AddPacketID_def mask_eq_exp_minus_1)
  have ok: "\<exists>c'. SendOutPacket (sampleEnvironment\<lparr> now := 100, socketEndSend := True \<rparr>) sendSample
          = Some (PacketSendOK, c')
      \<and> datagramSerializedMessages c' = [0, 1]
      \<and> map (\<lambda>p. sendCount (messages c' p)) [0, 1, 2] = [1, 1, 0]
      \<and> lastDatagramSendTime c' = 14
      \<and> datagramPacketIDCounter c' = 1
      \<and> map packetID (outboundPacketAckTrack c') = [0]
      \<and> map trackMessages (outboundPacketAckTrack c') = [[0]]"
    using SendOutPacket_bookkeeping
      [of "sampleEnvironment\<lparr> now := 100, socketEndSend := True \<rparr>" sendSample]
    by (auto simp: sendSample_environment sendSample_fields sendSample_delay sendSample_selected
        sendSample_messages can slots one datagramTrack_def)
  have full: "\<exists>c'. SendOutPacket (sampleEnvironment\<lparr> now := 100, socketEndSend := False \<rparr>) sendSample
          = Some (PacketSendSocketFull, c')
      \<and> datagramSerializedMessages c' = [0, 1]
      \<and> 0 \<in> set (outboundQueue c') \<and> 1 \<in> set (outboundQueue c')
      \<and> map (\<lambda>p. sendCount (messages c' p)) [0, 1, 2] = [0, 0, 0]
      \<and> lastDatagramSendTime c' = 0
      \<and> datagramPacketIDCounter c' = 0
      \<and> outboundPacketAckTrack c' = []"
    using SendOutPacket_bookkeeping
      [of "sampleEnvironment\<lparr> now := 100, socketEndSend := False \<rparr>" sendSample]
    by (auto simp: sendSample_environment sendSample_fields sendSample_delay sendSample_selected
        sendSample_messages can)
  from ok full show ?thesis
    by (rule conjI)
qed

end
